theory Spec2Isabelle
  imports Main
begin

section \<open>The storyboard server (server.js)\<close>

text \<open>
  A shallow embedding of the request handlers of \<^verbatim>\<open>server.js\<close>. The global
  \<^verbatim>\<open>storyboardData\<close>, the files of the \<^verbatim>\<open>uploads\<close> directory and the
  document \<^verbatim>\<open>data.json\<close> form an explicit state that every handler takes and
  returns together with its response. The library functions the handlers call
  (\<^verbatim>\<open>parseInt\<close>, \<^verbatim>\<open>path.extname\<close>, \<^verbatim>\<open>JSON.stringify\<close>, \<^verbatim>\<open>JSON.parse\<close>,
  multer's disk storage) are written out as ECMAScript, Node and multer define them.

  \<^item> JavaScript numbers are \<open>int\<close>: every number the handlers create
    (\<^verbatim>\<open>Date.now()\<close>, array lengths, the visit counter) is an integer far below
    \<open>2^53\<close>, where doubles are exact.
  \<^item> Strings are \<open>string\<close>, one \<open>char\<close> per code unit, so the code units are
    those below 256.
  \<^item> The file system is reliable: a write succeeds, and \<^verbatim>\<open>unlinkSync\<close> fails
    exactly when the file does not exist. Paths are relative to the directory of
    \<^verbatim>\<open>server.js\<close>, which is the working directory.
\<close>

subsection \<open>Data model\<close>

text \<open>The object literal \<^verbatim>\<open>newImage\<close> of the upload handler (lines 100-108).\<close>

record image_entry =
  img_id :: int
  title :: string
  description :: string
  date :: string
  isFavorite :: bool
  filename :: string
  url :: string

text \<open>\<^verbatim>\<open>storyboardData.stats\<close> and \<^verbatim>\<open>storyboardData\<close> (lines 44-51).\<close>

record catalog_stats =
  totalVisits :: int
  totalImages :: int
  totalFavorites :: int

record catalog =
  images :: "image_entry list"
  stats :: catalog_stats

text \<open>
  The server: the catalog in memory, the paths of the uploaded files on disk (relative
  to the server's directory, such as \<^verbatim>\<open>uploads/17-5.png\<close>), and the text of
  \<^verbatim>\<open>data.json\<close> (\<open>None\<close> while the file does not exist).
\<close>

record server =
  storyboardData :: catalog
  files :: "string set"
  data_json :: "string option"

text \<open>What a handler sends: the status and the JSON body, by shape.\<close>

datatype body =
    ErrorBody string
  | UploadBody image_entry string
  | FavoriteBody bool
  | MessageBody string
  | LoginFailBody string
  | ImagesBody "image_entry list"
  | StatsBody catalog_stats
  | FileBody string

datatype response = Response (status: nat) (body: body)

text \<open>The initial value of \<^verbatim>\<open>storyboardData\<close> (lines 44-51).\<close>

definition empty_catalog :: catalog where
  "empty_catalog =
     \<lparr>images = [], stats = \<lparr>totalVisits = 0, totalImages = 0, totalFavorites = 0\<rparr>\<rparr>"

subsection \<open>Numbers as text\<close>

text \<open>
  \<^verbatim>\<open>Number::toString\<close> on an integer below \<open>10^21\<close>: the decimal digits, with a
  minus sign for a negative number.
\<close>

definition digit_char :: "nat \<Rightarrow> char" where
  "digit_char d = ''0123456789'' ! d"

function string_of_nat :: "nat \<Rightarrow> string" where
  "string_of_nat n =
     (if n < 10 then [digit_char n] else string_of_nat (n div 10) @ [digit_char (n mod 10)])"
  by pat_completeness auto
termination
  by (relation "measure (\<lambda>n. n)") auto

declare string_of_nat.simps [simp del]

definition number_to_string :: "int \<Rightarrow> string" where
  "number_to_string i =
     (if i < 0 then CHR ''-'' # string_of_nat (nat (- i)) else string_of_nat (nat i))"

subsection \<open>path.extname\<close>

text \<open>
  Node's POSIX \<^verbatim>\<open>path.extname\<close>, loop for loop: the scan runs from the last
  character to the first, \<open>extname_loop path (Suc i)\<close> being the iteration at index
  \<open>i\<close>. A \<^verbatim>\<open>break\<close> returns the variables, a \<^verbatim>\<open>continue\<close> goes on to
  \<open>i - 1\<close>. The variable \<^verbatim>\<open>end\<close> is \<open>end_pos\<close>.
\<close>

record extname_vars =
  startDot :: int
  startPart :: int
  end_pos :: int
  matchedSlash :: bool
  preDotState :: int

fun extname_loop :: "string \<Rightarrow> nat \<Rightarrow> extname_vars \<Rightarrow> extname_vars" where
  "extname_loop path 0 v = v"
| "extname_loop path (Suc i) v =
     (let code = path ! i in
      if code = CHR ''/'' then
        (if \<not> matchedSlash v then v\<lparr>startPart := int i + 1\<rparr>
         else extname_loop path i v)
      else
        (let v1 = (if end_pos v = - 1 then v\<lparr>matchedSlash := False, end_pos := int i + 1\<rparr>
                   else v);
             v2 = (if code = CHR ''.'' then
                     (if startDot v1 = - 1 then v1\<lparr>startDot := int i\<rparr>
                      else if preDotState v1 \<noteq> 1 then v1\<lparr>preDotState := 1\<rparr>
                      else v1)
                   else if startDot v1 \<noteq> - 1 then v1\<lparr>preDotState := - 1\<rparr>
                   else v1)
         in extname_loop path i v2))"

definition slice :: "string \<Rightarrow> nat \<Rightarrow> nat \<Rightarrow> string" where
  "slice s a b = take (b - a) (drop a s)"

definition extname :: "string \<Rightarrow> string" where
  "extname path =
     (let v = extname_loop path (length path)
                \<lparr>startDot = - 1, startPart = 0, end_pos = - 1, matchedSlash = True,
                 preDotState = 0\<rparr>
      in if startDot v = - 1 \<or> end_pos v = - 1 \<or> preDotState v = 0 \<or>
            (preDotState v = 1 \<and> startDot v = end_pos v - 1 \<and> startDot v = startPart v + 1)
         then ''''
         else slice path (nat (startDot v)) (nat (end_pos v)))"

subsection \<open>parseInt\<close>

text \<open>
  \<^verbatim>\<open>parseInt(string)\<close> with no radix, step by step as ECMAScript defines it: trim
  the leading white space, read a sign, strip a \<^verbatim>\<open>0x\<close> prefix (which selects
  radix 16), take the longest prefix of digits of the radix, and return \<^verbatim>\<open>NaN\<close>
  when that prefix is empty. The result is the exact integer; the real function
  rounds it to a double, which changes nothing below \<open>2^53\<close>.
\<close>

datatype number = NaN | Number int

definition isWhiteSpace :: "char \<Rightarrow> bool" where
  "isWhiteSpace c = (of_char c \<in> {9, 10, 11, 12, 13, 32, 160 :: nat})"

definition digit_value :: "char \<Rightarrow> nat option" where
  "digit_value c =
     (let n = (of_char c :: nat) in
      if 48 \<le> n \<and> n \<le> 57 then Some (n - 48)
      else if 97 \<le> n \<and> n \<le> 122 then Some (n - 87)
      else if 65 \<le> n \<and> n \<le> 90 then Some (n - 55)
      else None)"

definition is_radix_digit :: "nat \<Rightarrow> char \<Rightarrow> bool" where
  "is_radix_digit R c = (case digit_value c of None \<Rightarrow> False | Some d \<Rightarrow> d < R)"

fun digits_value :: "nat \<Rightarrow> nat \<Rightarrow> string \<Rightarrow> nat" where
  "digits_value R acc [] = acc"
| "digits_value R acc (c # cs) =
     digits_value R (acc * R + (case digit_value c of None \<Rightarrow> 0 | Some d \<Rightarrow> d)) cs"

definition TrimStart :: "string \<Rightarrow> string" where
  "TrimStart inputString = dropWhile isWhiteSpace inputString"

definition strip_sign :: "string \<Rightarrow> string" where
  "strip_sign S = (if S \<noteq> [] \<and> (hd S = CHR ''+'' \<or> hd S = CHR ''-'') then tl S else S)"

definition parseInt :: "string \<Rightarrow> number" where
  "parseInt inputString =
     (let S = TrimStart inputString;
          sign = (if S \<noteq> [] \<and> hd S = CHR ''-'' then - 1 else 1 :: int);
          S1 = strip_sign S;
          hex = (2 \<le> length S1 \<and> (take 2 S1 = ''0x'' \<or> take 2 S1 = ''0X''));
          R = (if hex then 16 else 10);
          S2 = (if hex then drop 2 S1 else S1);
          Z = takeWhile (is_radix_digit R) S2
      in if Z = [] then NaN else Number (sign * int (digits_value R 0 Z)))"

subsection \<open>JSON.stringify\<close>

text \<open>
  The values \<^verbatim>\<open>JSON.stringify\<close> is applied to, and the text it produces with the
  indentation argument \<^verbatim>\<open>2\<close> (\<^verbatim>\<open>SerializeJSONProperty\<close>,
  \<^verbatim>\<open>SerializeJSONObject\<close>, \<^verbatim>\<open>SerializeJSONArray\<close> and
  \<^verbatim>\<open>QuoteJSONString\<close> of ECMAScript). An object is the list of its properties
  in insertion order.
\<close>

datatype json =
    JNull
  | JBool bool
  | JNumber int
  | JString string
  | JArray "json list"
  | JObject "(string \<times> json) list"

definition dquote :: char where
  "dquote = CHR 0x22"

definition backslash :: char where
  "backslash = CHR 0x5C"

definition newline :: char where
  "newline = CHR 0x0A"

definition hex_char :: "nat \<Rightarrow> char" where
  "hex_char d = ''0123456789abcdef'' ! d"

definition quote_char :: "char \<Rightarrow> string" where
  "quote_char c =
     (if c = CHR 0x08 then [backslash, CHR ''b'']
      else if c = CHR 0x09 then [backslash, CHR ''t'']
      else if c = CHR 0x0A then [backslash, CHR ''n'']
      else if c = CHR 0x0C then [backslash, CHR ''f'']
      else if c = CHR 0x0D then [backslash, CHR ''r'']
      else if c = dquote then [backslash, dquote]
      else if c = backslash then [backslash, backslash]
      else if (of_char c :: nat) < 32 then
        [backslash, CHR ''u'', CHR ''0'', CHR ''0'',
         hex_char (of_char c div 16), hex_char (of_char c mod 16)]
      else [c])"

definition QuoteJSONString :: "string \<Rightarrow> string" where
  "QuoteJSONString s = dquote # concat (map quote_char s) @ [dquote]"

fun join :: "string \<Rightarrow> string list \<Rightarrow> string" where
  "join sep [] = []"
| "join sep [x] = x"
| "join sep (x # y # ys) = x @ sep @ join sep (y # ys)"

definition gap :: string where
  "gap = ''  ''"

fun SerializeJSONProperty :: "string \<Rightarrow> json \<Rightarrow> string" where
  "SerializeJSONProperty indent JNull = ''null''"
| "SerializeJSONProperty indent (JBool b) = (if b then ''true'' else ''false'')"
| "SerializeJSONProperty indent (JNumber n) = number_to_string n"
| "SerializeJSONProperty indent (JString s) = QuoteJSONString s"
| "SerializeJSONProperty indent (JArray vs) =
     (if vs = [] then ''[]''
      else ''['' @ [newline] @ (indent @ gap) @
           join ('','' @ [newline] @ (indent @ gap))
             (map (\<lambda>v. SerializeJSONProperty (indent @ gap) v) vs) @
           [newline] @ indent @ '']'')"
| "SerializeJSONProperty indent (JObject ms) =
     (if ms = [] then ''{}''
      else ''{'' @ [newline] @ (indent @ gap) @
           join ('','' @ [newline] @ (indent @ gap))
             (map (\<lambda>m. QuoteJSONString (fst m) @ '': '' @
                        SerializeJSONProperty (indent @ gap) (snd m)) ms) @
           [newline] @ indent @ ''}'')"

definition JSON_stringify :: "json \<Rightarrow> string" where
  "JSON_stringify v = SerializeJSONProperty [] v"

text \<open>The catalog as the JavaScript value it is, property by property in creation order.\<close>

definition image_json :: "image_entry \<Rightarrow> json" where
  "image_json img =
     JObject [(''id'', JNumber (img_id img)),
              (''title'', JString (title img)),
              (''description'', JString (description img)),
              (''date'', JString (date img)),
              (''isFavorite'', JBool (isFavorite img)),
              (''filename'', JString (filename img)),
              (''url'', JString (url img))]"

definition stats_json :: "catalog_stats \<Rightarrow> json" where
  "stats_json st =
     JObject [(''totalVisits'', JNumber (totalVisits st)),
              (''totalImages'', JNumber (totalImages st)),
              (''totalFavorites'', JNumber (totalFavorites st))]"

definition catalog_json :: "catalog \<Rightarrow> json" where
  "catalog_json d =
     JObject [(''images'', JArray (map image_json (images d))),
              (''stats'', stats_json (stats d))]"

subsection \<open>The handlers\<close>

text \<open>\<^verbatim>\<open>saveData\<close> (lines 64-66): the whole catalog is written to \<^verbatim>\<open>data.json\<close>.\<close>

definition saveData :: "server \<Rightarrow> server" where
  "saveData s = s\<lparr>data_json := Some (JSON_stringify (catalog_json (storyboardData s)))\<rparr>"

text \<open>\<^verbatim>\<open>fs.unlinkSync\<close>: removes the file, or throws when there is none.\<close>

datatype fs_error = ENOENT

definition unlinkSync :: "string \<Rightarrow> server \<Rightarrow> fs_error + server" where
  "unlinkSync p s = (if p \<in> files s then Inr (s\<lparr>files := files s - {p}\<rparr>) else Inl ENOENT)"

text \<open>\<^verbatim>\<open>GET /\<close> (lines 69-73), \<^verbatim>\<open>GET /api/images\<close> and \<^verbatim>\<open>GET /api/stats\<close>.\<close>

definition get_root :: "server \<Rightarrow> response \<times> server" where
  "get_root s =
     (let d = storyboardData s;
          d1 = d\<lparr>stats := (stats d)\<lparr>totalVisits := totalVisits (stats d) + 1\<rparr>\<rparr>
      in (Response 200 (FileBody ''public/index.html''), saveData (s\<lparr>storyboardData := d1\<rparr>)))"

definition get_api_images :: "server \<Rightarrow> response \<times> server" where
  "get_api_images s = (Response 200 (ImagesBody (images (storyboardData s))), s)"

definition get_api_stats :: "server \<Rightarrow> response \<times> server" where
  "get_api_stats s = (Response 200 (StatsBody (stats (storyboardData s))), s)"

text \<open>
  The multipart request of \<^verbatim>\<open>POST /api/upload\<close>: the part named \<^verbatim>\<open>image\<close>, if
  any, and the text fields \<^verbatim>\<open>title\<close> and \<^verbatim>\<open>description\<close>, each sent at
  most once (\<open>None\<close> when the field is absent). The values the handler reads from the clock and the random
  generator come with the request: \<^verbatim>\<open>Date.now()\<close> in \<^verbatim>\<open>filename\<close>,
  \<^verbatim>\<open>Math.round(Math.random() * 1E9)\<close>, \<^verbatim>\<open>Date.now()\<close> for the id and
  \<^verbatim>\<open>new Date().toISOString()\<close>.
\<close>

record file_part =
  originalname :: string
  mimetype :: string
  size :: nat

record upload_request =
  image_part :: "file_part option"
  title_field :: "string option"
  description_field :: "string option"
  filename_now :: int
  filename_random :: int
  id_now :: int
  iso_now :: string

text \<open>\<^verbatim>\<open>req.file\<close> as multer's disk storage fills it.\<close>

record req_file =
  file_filename :: string
  file_path :: string

text \<open>The \<^verbatim>\<open>filename\<close> callback of \<^verbatim>\<open>multer.diskStorage\<close> (lines 23-26).\<close>

definition uniqueName :: "int \<Rightarrow> int \<Rightarrow> string \<Rightarrow> string" where
  "uniqueName now rnd original =
     number_to_string now @ ''-'' @ number_to_string rnd @ extname original"

text \<open>
  \<^verbatim>\<open>upload.single('image')\<close> (lines 19-41): the file filter, the size limit and the
  write to \<^verbatim>\<open>uploads/\<close>. A refused file goes to the error middleware (lines
  181-188), which answers 400 for \<^verbatim>\<open>LIMIT_FILE_SIZE\<close> and 500 otherwise; multer
  keeps no file in either case.
\<close>

datatype multer_result = Refused response | Passed "req_file option"

definition fileSize_limit :: nat where
  "fileSize_limit = 10 * 1024 * 1024"

definition upload_single :: "upload_request \<Rightarrow> server \<Rightarrow> multer_result \<times> server" where
  "upload_single req s =
     (case image_part req of
        None \<Rightarrow> (Passed None, s)
      | Some f \<Rightarrow>
          if take 6 (mimetype f) \<noteq> ''image/'' then
            (Refused (Response 500 (ErrorBody ''Only image files are allowed!'')), s)
          else if fileSize_limit < size f then
            (Refused (Response 400 (ErrorBody ''File too large. Maximum size is 10MB.'')), s)
          else
            (let name = uniqueName (filename_now req) (filename_random req) (originalname f);
                 p = ''uploads/'' @ name
             in (Passed (Some \<lparr>file_filename = name, file_path = p\<rparr>),
                 s\<lparr>files := insert p (files s)\<rparr>)))"

text \<open>JavaScript's \<^verbatim>\<open>!field\<close> on a text field: absent or empty.\<close>

definition falsy :: "string option \<Rightarrow> bool" where
  "falsy field = (case field of None \<Rightarrow> True | Some t \<Rightarrow> t = [])"

text \<open>The handler of \<^verbatim>\<open>POST /api/upload\<close> (lines 86-122).\<close>

definition upload_handler ::
  "upload_request \<Rightarrow> req_file option \<Rightarrow> server \<Rightarrow> response \<times> server" where
  "upload_handler req file s =
     (case file of
        None \<Rightarrow> (Response 400 (ErrorBody ''No image file provided''), s)
      | Some f \<Rightarrow>
          if falsy (title_field req) \<or> falsy (description_field req) then
            (case unlinkSync (file_path f) s of
               Inl e \<Rightarrow> (Response 500 (ErrorBody ''Failed to upload image''), s)
             | Inr s1 \<Rightarrow> (Response 400 (ErrorBody ''Title and description are required''), s1))
          else
            (let newImage =
                   \<lparr>img_id = id_now req,
                    title = the (title_field req),
                    description = the (description_field req),
                    date = iso_now req,
                    isFavorite = False,
                    filename = file_filename f,
                    url = ''/uploads/'' @ file_filename f\<rparr>;
                 d = storyboardData s;
                 d1 = d\<lparr>images := newImage # images d\<rparr>;
                 d2 = d1\<lparr>stats := (stats d1)\<lparr>totalImages := int (length (images d1))\<rparr>\<rparr>
             in (Response 200 (UploadBody newImage ''Image uploaded successfully''),
                 saveData (s\<lparr>storyboardData := d2\<rparr>))))"

definition post_api_upload :: "upload_request \<Rightarrow> server \<Rightarrow> response \<times> server" where
  "post_api_upload req s =
     (case upload_single req s of
        (Refused r, s1) \<Rightarrow> (r, s1)
      | (Passed file, s1) \<Rightarrow> upload_handler req file s1)"

text \<open>
  \<^verbatim>\<open>Array.prototype.findIndex\<close>; \<open>None\<close> is the result \<open>-1\<close>. The object
  \<^verbatim>\<open>find\<close> returns (line 127) is the element at this index, updated in place.
\<close>

fun findIndex :: "('a \<Rightarrow> bool) \<Rightarrow> 'a list \<Rightarrow> nat option" where
  "findIndex P [] = None"
| "findIndex P (x # xs) = (if P x then Some 0 else map_option Suc (findIndex P xs))"

text \<open>\<^verbatim>\<open>img => img.id === imageId\<close>: never true of \<^verbatim>\<open>NaN\<close>.\<close>

definition id_is :: "number \<Rightarrow> image_entry \<Rightarrow> bool" where
  "id_is imageId img = (Number (img_id img) = imageId)"

text \<open>The handler of \<^verbatim>\<open>POST /api/favorite/:id\<close> after line 126 (lines 127-139).\<close>

definition toggleFavorite :: "number \<Rightarrow> server \<Rightarrow> response \<times> server" where
  "toggleFavorite imageId s =
     (let d = storyboardData s in
      case findIndex (id_is imageId) (images d) of
        Some i \<Rightarrow>
          (let image = (images d ! i)\<lparr>isFavorite := \<not> isFavorite (images d ! i)\<rparr>;
               d1 = d\<lparr>images := (images d)[i := image]\<rparr>;
               d2 = d1\<lparr>stats := (stats d1)
                      \<lparr>totalFavorites := int (length (filter isFavorite (images d1)))\<rparr>\<rparr>
           in (Response 200 (FavoriteBody (isFavorite image)),
               saveData (s\<lparr>storyboardData := d2\<rparr>)))
      | None \<Rightarrow> (Response 404 (ErrorBody ''Image not found''), s))"

definition post_api_favorite :: "string \<Rightarrow> server \<Rightarrow> response \<times> server" where
  "post_api_favorite id_param s = toggleFavorite (parseInt id_param) s"

text \<open>
  The handler of \<^verbatim>\<open>DELETE /api/images/:id\<close> after line 144 (lines 145-167). The
  failure of \<^verbatim>\<open>unlinkSync\<close> is caught and logged (lines 151-155).
\<close>

definition deleteImage :: "number \<Rightarrow> server \<Rightarrow> response \<times> server" where
  "deleteImage imageId s =
     (let d = storyboardData s in
      case findIndex (id_is imageId) (images d) of
        Some imageIndex \<Rightarrow>
          (let image = images d ! imageIndex;
               s1 = (case unlinkSync (''uploads/'' @ filename image) s of
                       Inl e \<Rightarrow> s
                     | Inr s' \<Rightarrow> s');
               d1 = d\<lparr>images := take imageIndex (images d) @ drop (Suc imageIndex) (images d)\<rparr>;
               d2 = d1\<lparr>stats := (stats d1)\<lparr>totalImages := int (length (images d1))\<rparr>\<rparr>;
               d3 = d2\<lparr>stats := (stats d2)
                      \<lparr>totalFavorites := int (length (filter isFavorite (images d2)))\<rparr>\<rparr>
           in (Response 200 (MessageBody ''Image deleted successfully''),
               saveData (s1\<lparr>storyboardData := d3\<rparr>)))
      | None \<Rightarrow> (Response 404 (ErrorBody ''Image not found''), s))"

definition delete_api_images :: "string \<Rightarrow> server \<Rightarrow> response \<times> server" where
  "delete_api_images id_param s = deleteImage (parseInt id_param) s"

text \<open>
  The handler of \<^verbatim>\<open>POST /api/login\<close> (lines 170-178). The password is whatever
  JSON value the body holds under \<^verbatim>\<open>password\<close>, \<open>None\<close> when there is none;
  \<^verbatim>\<open>===\<close> holds for the string \<^verbatim>\<open>admin\<close> only.
\<close>

definition post_api_login :: "json option \<Rightarrow> server \<Rightarrow> response \<times> server" where
  "post_api_login password s =
     (if password = Some (JString ''admin'') then
        (Response 200 (MessageBody ''Login successful''), s)
      else (Response 401 (LoginFailBody ''Invalid password''), s))"

subsection \<open>JSON.parse\<close>

text \<open>
  \<^verbatim>\<open>JSON.parse\<close> as a recursive-descent reader of the JSON grammar. It answers
  \<open>Inr v\<close> for a text whose value is \<open>v\<close>, \<open>Inl SyntaxError\<close> where the real
  function throws, and \<open>Inl NotModelled\<close> where the text leaves what the model covers
  before any error was found: a number with a fraction, an exponent or \<open>2^53\<close> or more
  in magnitude, a \<^verbatim>\<open>\u\<close> escape above \<^verbatim>\<open>00ff\<close>, or an object key made of
  digits (which JavaScript enumerates before the other keys). The recursion on nested
  values is bounded by a number of steps, which \<open>JSON_parse\<close> sets to more than twice
  the length of the text; running out of steps is \<open>NotModelled\<close> too.
\<close>

datatype parse_error = SyntaxError | NotModelled

definition is_ws :: "char \<Rightarrow> bool" where
  "is_ws c = (c = CHR 0x09 \<or> c = CHR 0x0A \<or> c = CHR 0x0D \<or> c = CHR '' '')"

definition skip_ws :: "string \<Rightarrow> string" where
  "skip_ws s = dropWhile is_ws s"

text \<open>The character a one-letter escape stands for.\<close>

definition unescape :: "char \<Rightarrow> char option" where
  "unescape e =
     (if e = dquote then Some dquote
      else if e = backslash then Some backslash
      else if e = CHR ''/'' then Some (CHR ''/'')
      else if e = CHR ''b'' then Some (CHR 0x08)
      else if e = CHR ''f'' then Some (CHR 0x0C)
      else if e = CHR ''n'' then Some (CHR 0x0A)
      else if e = CHR ''r'' then Some (CHR 0x0D)
      else if e = CHR ''t'' then Some (CHR 0x09)
      else None)"

text \<open>The code unit of \<^verbatim>\<open>\uXXXX\<close>, when all four are hexadecimal digits.\<close>

definition hex4 :: "char \<Rightarrow> char \<Rightarrow> char \<Rightarrow> char \<Rightarrow> nat option" where
  "hex4 a b c d =
     (if is_radix_digit 16 a \<and> is_radix_digit 16 b \<and> is_radix_digit 16 c \<and> is_radix_digit 16 d
      then Some (digits_value 16 0 [a, b, c, d]) else None)"

text \<open>The characters of a string after its opening quote, up to the closing one.\<close>

fun parse_chars :: "string \<Rightarrow> parse_error + (string \<times> string)" where
  "parse_chars [] = Inl SyntaxError"
| "parse_chars (c # cs) =
     (if c = dquote then Inr ([], cs)
      else if c = backslash then
        (case cs of
           [] \<Rightarrow> Inl SyntaxError
         | e # cs1 \<Rightarrow>
             if e = CHR ''u'' then
               (case cs1 of
                  h1 # h2 # h3 # h4 # cs2 \<Rightarrow>
                    (case hex4 h1 h2 h3 h4 of
                       None \<Rightarrow> Inl SyntaxError
                     | Some n \<Rightarrow>
                         if 256 \<le> n then Inl NotModelled
                         else (case parse_chars cs2 of
                                 Inl err \<Rightarrow> Inl err
                               | Inr (s, r) \<Rightarrow> Inr (char_of n # s, r)))
                | _ \<Rightarrow> Inl SyntaxError)
             else
               (case unescape e of
                  None \<Rightarrow> Inl SyntaxError
                | Some ch \<Rightarrow>
                    (case parse_chars cs1 of
                       Inl err \<Rightarrow> Inl err
                     | Inr (s, r) \<Rightarrow> Inr (ch # s, r))))
      else if (of_char c :: nat) < 32 then Inl SyntaxError
      else (case parse_chars cs of
              Inl err \<Rightarrow> Inl err
            | Inr (s, r) \<Rightarrow> Inr (c # s, r)))"

text \<open>A number: an optional minus sign and the digits, with no leading zero.\<close>

definition parse_number :: "string \<Rightarrow> parse_error + (json \<times> string)" where
  "parse_number s =
     (let negative = (s \<noteq> [] \<and> hd s = CHR ''-'');
          s1 = (if negative then tl s else s);
          ds = takeWhile (is_radix_digit 10) s1;
          r = dropWhile (is_radix_digit 10) s1
      in if ds = [] \<or> (1 < length ds \<and> hd ds = CHR ''0'') then Inl SyntaxError
         else if r \<noteq> [] \<and> (hd r = CHR ''.'' \<or> hd r = CHR ''e'' \<or> hd r = CHR ''E'') then
           Inl NotModelled
         else if 2 ^ 53 \<le> digits_value 10 0 ds then Inl NotModelled
         else Inr (JNumber ((if negative then - 1 else 1) * int (digits_value 10 0 ds)), r))"

text \<open>
  The object a list of parsed members makes: a key that occurs again replaces the
  value where the key stands.
\<close>

fun set_property :: "string \<Rightarrow> json \<Rightarrow> (string \<times> json) list \<Rightarrow> (string \<times> json) list" where
  "set_property k v [] = [(k, v)]"
| "set_property k v (m # ms) = (if fst m = k then (k, v) # ms else m # set_property k v ms)"

definition index_key :: "string \<Rightarrow> bool" where
  "index_key k = (k \<noteq> [] \<and> list_all (is_radix_digit 10) k)"

definition make_object :: "(string \<times> json) list \<Rightarrow> parse_error + json" where
  "make_object ms =
     (if list_ex (\<lambda>m. index_key (fst m)) ms then Inl NotModelled
      else Inr (JObject (foldl (\<lambda>obj m. set_property (fst m) (snd m) obj) [] ms)))"

fun parse_value :: "nat \<Rightarrow> string \<Rightarrow> parse_error + (json \<times> string)"
  and parse_elements :: "nat \<Rightarrow> string \<Rightarrow> parse_error + (json list \<times> string)"
  and parse_members :: "nat \<Rightarrow> string \<Rightarrow> parse_error + ((string \<times> json) list \<times> string)"
where
  "parse_value 0 s = Inl NotModelled"
| "parse_value (Suc n) s =
     (case s of
        [] \<Rightarrow> Inl SyntaxError
      | c # cs \<Rightarrow>
          if c = CHR ''{'' then
            (case skip_ws cs of
               [] \<Rightarrow> Inl SyntaxError
             | d # r \<Rightarrow>
                 if d = CHR ''}'' then Inr (JObject [], r)
                 else (case parse_members n (d # r) of
                         Inl err \<Rightarrow> Inl err
                       | Inr (ms, r1) \<Rightarrow>
                           (case make_object ms of
                              Inl err \<Rightarrow> Inl err
                            | Inr obj \<Rightarrow> Inr (obj, r1))))
          else if c = CHR ''['' then
            (case skip_ws cs of
               [] \<Rightarrow> Inl SyntaxError
             | d # r \<Rightarrow>
                 if d = CHR '']'' then Inr (JArray [], r)
                 else (case parse_elements n (d # r) of
                         Inl err \<Rightarrow> Inl err
                       | Inr (vs, r1) \<Rightarrow> Inr (JArray vs, r1)))
          else if c = dquote then
            (case parse_chars cs of
               Inl err \<Rightarrow> Inl err
             | Inr (str, r) \<Rightarrow> Inr (JString str, r))
          else if c = CHR ''-'' \<or> is_radix_digit 10 c then parse_number s
          else if take 4 s = ''true'' then Inr (JBool True, drop 4 s)
          else if take 5 s = ''false'' then Inr (JBool False, drop 5 s)
          else if take 4 s = ''null'' then Inr (JNull, drop 4 s)
          else Inl SyntaxError)"
| "parse_elements 0 s = Inl NotModelled"
| "parse_elements (Suc n) s =
     (case parse_value n s of
        Inl err \<Rightarrow> Inl err
      | Inr (v, r) \<Rightarrow>
          (case skip_ws r of
             [] \<Rightarrow> Inl SyntaxError
           | d # r1 \<Rightarrow>
               if d = CHR '','' then
                 (case parse_elements n (skip_ws r1) of
                    Inl err \<Rightarrow> Inl err
                  | Inr (vs, r2) \<Rightarrow> Inr (v # vs, r2))
               else if d = CHR '']'' then Inr ([v], r1)
               else Inl SyntaxError))"
| "parse_members 0 s = Inl NotModelled"
| "parse_members (Suc n) s =
     (case s of
        [] \<Rightarrow> Inl SyntaxError
      | q # cs \<Rightarrow>
          if q \<noteq> dquote then Inl SyntaxError
          else
            (case parse_chars cs of
               Inl err \<Rightarrow> Inl err
             | Inr (k, r) \<Rightarrow>
                 (case skip_ws r of
                    [] \<Rightarrow> Inl SyntaxError
                  | colon # r1 \<Rightarrow>
                      if colon \<noteq> CHR '':'' then Inl SyntaxError
                      else
                        (case parse_value n (skip_ws r1) of
                           Inl err \<Rightarrow> Inl err
                         | Inr (v, r2) \<Rightarrow>
                             (case skip_ws r2 of
                                [] \<Rightarrow> Inl SyntaxError
                              | d # r3 \<Rightarrow>
                                  if d = CHR '','' then
                                    (case parse_members n (skip_ws r3) of
                                       Inl err \<Rightarrow> Inl err
                                     | Inr (ms, r4) \<Rightarrow> Inr ((k, v) # ms, r4))
                                  else if d = CHR ''}'' then Inr ([(k, v)], r3)
                                  else Inl SyntaxError)))))"

definition JSON_parse :: "string \<Rightarrow> parse_error + json" where
  "JSON_parse text =
     (case parse_value (Suc (2 * length text)) (skip_ws text) of
        Inl err \<Rightarrow> Inl err
      | Inr (v, r) \<Rightarrow> if skip_ws r = [] then Inr v else Inl SyntaxError)"

subsection \<open>Loading data.json\<close>

text \<open>
  The catalog a parsed value is, when it has the shape the handlers write: the
  properties of \<^verbatim>\<open>newImage\<close> and of \<^verbatim>\<open>storyboardData\<close> in their order. Any other
  value is outside the typed state of this model.
\<close>

definition image_of_json :: "json \<Rightarrow> image_entry option" where
  "image_of_json v =
     (case v of
        JObject ms \<Rightarrow>
          if map fst ms =
               [''id'', ''title'', ''description'', ''date'', ''isFavorite'', ''filename'', ''url'']
          then
            (case map snd ms of
               [JNumber i, JString t, JString d, JString dt, JBool f, JString fn, JString u] \<Rightarrow>
                 Some \<lparr>img_id = i, title = t, description = d, date = dt, isFavorite = f,
                       filename = fn, url = u\<rparr>
             | _ \<Rightarrow> None)
          else None
      | _ \<Rightarrow> None)"

definition stats_of_json :: "json \<Rightarrow> catalog_stats option" where
  "stats_of_json v =
     (case v of
        JObject ms \<Rightarrow>
          if map fst ms = [''totalVisits'', ''totalImages'', ''totalFavorites''] then
            (case map snd ms of
               [JNumber a, JNumber b, JNumber c] \<Rightarrow>
                 Some \<lparr>totalVisits = a, totalImages = b, totalFavorites = c\<rparr>
             | _ \<Rightarrow> None)
          else None
      | _ \<Rightarrow> None)"

definition catalog_of_json :: "json \<Rightarrow> catalog option" where
  "catalog_of_json v =
     (case v of
        JObject ms \<Rightarrow>
          if map fst ms = [''images'', ''stats''] then
            (case map snd ms of
               [JArray vs, st] \<Rightarrow>
                 (case (those (map image_of_json vs), stats_of_json st) of
                    (Some imgs, Some st') \<Rightarrow> Some \<lparr>images = imgs, stats = st'\<rparr>
                  | _ \<Rightarrow> None)
             | _ \<Rightarrow> None)
          else None
      | _ \<Rightarrow> None)"

text \<open>
  The start of the server (lines 43-61) with the files \<open>fs\<close> on disk and \<open>doc\<close> as
  \<^verbatim>\<open>data.json\<close>: without the file, or when \<^verbatim>\<open>JSON.parse\<close> throws, the catalog is the
  empty one. The result is \<open>None\<close> where the model has no answer: the parser had none,
  or the value is not a catalog.
\<close>

definition load :: "string set \<Rightarrow> string option \<Rightarrow> server option" where
  "load fs doc =
     (let s = \<lparr>storyboardData = empty_catalog, files = fs, data_json = doc\<rparr> in
      case doc of
        None \<Rightarrow> Some s
      | Some data \<Rightarrow>
          (case JSON_parse data of
             Inl SyntaxError \<Rightarrow> Some s
           | Inl NotModelled \<Rightarrow> None
           | Inr v \<Rightarrow>
               (case catalog_of_json v of
                  None \<Rightarrow> None
                | Some d \<Rightarrow> Some (s\<lparr>storyboardData := d\<rparr>))))"

text \<open>The numbers of a catalog are safe integers, as all numbers the handlers make are.\<close>

definition safe_catalog :: "catalog \<Rightarrow> bool" where
  "safe_catalog d =
     ((\<forall>img\<in>set (images d). \<bar>img_id img\<bar> < 2 ^ 53) \<and>
      \<bar>totalVisits (stats d)\<bar> < 2 ^ 53 \<and> \<bar>totalImages (stats d)\<bar> < 2 ^ 53 \<and>
      \<bar>totalFavorites (stats d)\<bar> < 2 ^ 53)"

subsection \<open>Catalog states\<close>

text \<open>
  The two derived counters agree with the collection: what the data model calls the
  invariant of \<^verbatim>\<open>CatalogStatistics\<close>.
\<close>

definition consistent :: "catalog \<Rightarrow> bool" where
  "consistent d =
     (totalImages (stats d) = int (length (images d)) \<and>
      totalFavorites (stats d) = int (length (filter isFavorite (images d))))"

text \<open>
  The states of a server that started with the empty catalog (no \<^verbatim>\<open>data.json\<close>, or
  one that did not parse), after any finite sequence of requests. The files on disk
  at the start are arbitrary.
\<close>

inductive reachable :: "server \<Rightarrow> bool" where
  start: "reachable \<lparr>storyboardData = empty_catalog, files = F, data_json = D\<rparr>"
| upload: "reachable s \<Longrightarrow> reachable (snd (post_api_upload req s))"
| favorite: "reachable s \<Longrightarrow> reachable (snd (post_api_favorite id_param s))"
| delete: "reachable s \<Longrightarrow> reachable (snd (delete_api_images id_param s))"
| visit: "reachable s \<Longrightarrow> reachable (snd (get_root s))"
| list: "reachable s \<Longrightarrow> reachable (snd (get_api_images s))"
| read_stats: "reachable s \<Longrightarrow> reachable (snd (get_api_stats s))"
| login: "reachable s \<Longrightarrow> reachable (snd (post_api_login password s))"

subsection \<open>Concrete requests and states\<close>

definition cat_upload :: upload_request where
  "cat_upload =
     \<lparr>image_part = Some \<lparr>originalname = ''cat.png'', mimetype = ''image/png'', size = 2048\<rparr>,
      title_field = Some ''Cat'',
      description_field = Some ''A cat'',
      filename_now = 1700000000000,
      filename_random = 123456789,
      id_now = 1700000000005,
      iso_now = ''2023-11-14T22:13:20.005Z''\<rparr>"

definition cat_image :: image_entry where
  "cat_image =
     \<lparr>img_id = 1700000000005, title = ''Cat'', description = ''A cat'',
      date = ''2023-11-14T22:13:20.005Z'', isFavorite = False,
      filename = ''1700000000000-123456789.png'',
      url = ''/uploads/1700000000000-123456789.png''\<rparr>"

definition dog_image :: image_entry where
  "dog_image =
     \<lparr>img_id = 1690000000000, title = ''Dog'', description = ''A dog'',
      date = ''2023-07-22T04:26:40.000Z'', isFavorite = True,
      filename = ''1690000000000-42.jpg'',
      url = ''/uploads/1690000000000-42.jpg''\<rparr>"

definition fresh_server :: server where
  "fresh_server = \<lparr>storyboardData = empty_catalog, files = {}, data_json = None\<rparr>"

text \<open>A server holding both images, the dog a favorite.\<close>

definition two_images :: server where
  "two_images =
     \<lparr>storyboardData =
        \<lparr>images = [cat_image, dog_image],
         stats = \<lparr>totalVisits = 3, totalImages = 2, totalFavorites = 1\<rparr>\<rparr>,
      files = {''uploads/1700000000000-123456789.png'', ''uploads/1690000000000-42.jpg''},
      data_json = None\<rparr>"

text \<open>
  A server whose \<^verbatim>\<open>data.json\<close> was edited by hand: one image, not a favorite, and a
  \<^verbatim>\<open>totalFavorites\<close> of 7. Line 57 takes the parsed document as it is.
\<close>

definition drifted_catalog :: catalog where
  "drifted_catalog =
     \<lparr>images = [cat_image],
      stats = \<lparr>totalVisits = 0, totalImages = 1, totalFavorites = 7\<rparr>\<rparr>"

definition drifted_server :: server where
  "drifted_server =
     \<lparr>storyboardData = drifted_catalog,
      files = {''uploads/1700000000000-123456789.png''},
      data_json = Some (JSON_stringify (catalog_json drifted_catalog))\<rparr>"

subsection \<open>The loop of path.extname, for the proofs\<close>

text \<open>
  One iteration of the loop of \<^verbatim>\<open>path.extname\<close> on a character other than
  \<^verbatim>\<open>/\<close>, and what it does to the variables the result is cut from.
\<close>

definition extname_body :: "string \<Rightarrow> nat \<Rightarrow> extname_vars \<Rightarrow> extname_vars" where
  "extname_body path i v =
     (let v1 = (if end_pos v = - 1 then v\<lparr>matchedSlash := False, end_pos := int i + 1\<rparr> else v)
      in if path ! i = CHR ''.'' then
           (if startDot v1 = - 1 then v1\<lparr>startDot := int i\<rparr>
            else if preDotState v1 \<noteq> 1 then v1\<lparr>preDotState := 1\<rparr>
            else v1)
         else if startDot v1 \<noteq> - 1 then v1\<lparr>preDotState := - 1\<rparr>
         else v1)"

text \<open>
  Once \<^verbatim>\<open>end\<close> is set, the indices from the current one up to \<^verbatim>\<open>end\<close> hold no
  \<^verbatim>\<open>/\<close>, and \<^verbatim>\<open>startDot\<close>, when set, lies among them.
\<close>

definition extname_inv :: "string \<Rightarrow> nat \<Rightarrow> extname_vars \<Rightarrow> bool" where
  "extname_inv path n v =
     (if end_pos v = - 1 then startDot v = - 1 \<and> matchedSlash v
      else \<not> matchedSlash v \<and> int n \<le> end_pos v \<and> end_pos v \<le> int (length path) \<and>
           (\<forall>j. n \<le> j \<and> int j < end_pos v \<longrightarrow> path ! j \<noteq> CHR ''/'') \<and>
           (startDot v \<noteq> - 1 \<longrightarrow> int n \<le> startDot v \<and> startDot v < end_pos v))"

definition extname_window :: "string \<Rightarrow> extname_vars \<Rightarrow> bool" where
  "extname_window path v =
     (startDot v \<noteq> - 1 \<and> end_pos v \<noteq> - 1 \<longrightarrow>
        0 \<le> startDot v \<and> startDot v < end_pos v \<and> end_pos v \<le> int (length path) \<and>
        (\<forall>j. startDot v \<le> int j \<and> int j < end_pos v \<longrightarrow> path ! j \<noteq> CHR ''/''))"

subsection \<open>The text of JSON.stringify, for the proofs\<close>

text \<open>
  The values the round trip is stated for: the numbers are safe integers, and the keys
  of an object are distinct and not made of digits.
\<close>

fun wf_json :: "json \<Rightarrow> bool" where
  "wf_json (JNumber n) = (\<bar>n\<bar> < 2 ^ 53)"
| "wf_json (JArray vs) = (\<forall>v\<in>set vs. wf_json v)"
| "wf_json (JObject ms) =
     (distinct (map fst ms) \<and> (\<forall>m\<in>set ms. \<not> index_key (fst m) \<and> wf_json (snd m)))"
| "wf_json v = True"

definition ws_only :: "string \<Rightarrow> bool" where
  "ws_only s = (\<forall>c\<in>set s. is_ws c)"

text \<open>What follows a value in the text \<^verbatim>\<open>JSON.stringify\<close> writes.\<close>

definition delimited :: "string \<Rightarrow> bool" where
  "delimited rest = (rest = [] \<or> hd rest = CHR '','' \<or> hd rest = newline)"

text \<open>The first character of a value.\<close>

definition starts_value :: "char \<Rightarrow> bool" where
  "starts_value c =
     (c = CHR ''['' \<or> c = CHR ''{'' \<or> c = dquote \<or> c = CHR ''-'' \<or> is_radix_digit 10 c \<or>
      c = CHR ''t'' \<or> c = CHR ''f'' \<or> c = CHR ''n'')"

text \<open>What may follow a number in a text: nothing that would extend it.\<close>

definition ends_number :: "string \<Rightarrow> bool" where
  "ends_number rest =
     (rest = [] \<or> \<not> is_radix_digit 10 (hd rest) \<and> hd rest \<noteq> CHR ''.'' \<and>
        hd rest \<noteq> CHR ''e'' \<and> hd rest \<noteq> CHR ''E'')"

section \<open>Properties\<close>

subsection \<open>What the handlers leave alone\<close>

lemma storyboardData_saveData [simp]: "storyboardData (saveData s) = storyboardData s"
  by (simp add: saveData_def)

lemma files_saveData [simp]: "files (saveData s) = files s"
  by (simp add: saveData_def)

lemma storyboardData_upload_single [simp]:
  "storyboardData (snd (upload_single req s)) = storyboardData s"
  by (simp add: upload_single_def Let_def split: option.splits)

lemma storyboardData_unlinkSync:
  "unlinkSync p s = Inr s1 \<Longrightarrow> storyboardData s1 = storyboardData s"
  by (auto simp: unlinkSync_def split: if_splits)

subsection \<open>findIndex\<close>

lemma findIndex_Some:
  "findIndex P xs = Some i \<Longrightarrow> i < length xs \<and> P (xs ! i) \<and> (\<forall>j<i. \<not> P (xs ! j))"
proof (induction xs arbitrary: i)
  case Nil
  then show ?case by simp
next
  case (Cons x xs)
  show ?case
  proof (cases "P x")
    case True
    with Cons.prems show ?thesis by simp
  next
    case False
    with Cons.prems obtain k where k: "findIndex P xs = Some k" "i = Suc k"
      by auto
    from Cons.IH [OF k(1)] False k(2) show ?thesis
      by (auto simp: nth_Cons split: nat.splits)
  qed
qed

lemma findIndex_None: "findIndex P xs = None \<longleftrightarrow> (\<forall>x\<in>set xs. \<not> P x)"
  by (induction xs) auto

subsection \<open>The counters follow the collection\<close>

lemma consistent_upload_handler:
  "consistent (storyboardData s) \<Longrightarrow> consistent (storyboardData (snd (upload_handler req file s)))"
  by (auto simp: upload_handler_def consistent_def Let_def
      split: option.splits sum.splits dest: storyboardData_unlinkSync)

lemma consistent_upload:
  assumes "consistent (storyboardData s)"
  shows "consistent (storyboardData (snd (post_api_upload req s)))"
proof (cases "upload_single req s")
  case (Pair m s1)
  then have "storyboardData s1 = storyboardData s"
    using storyboardData_upload_single [of req s] by simp
  with assms Pair show ?thesis
    using consistent_upload_handler [of s1 req]
    by (cases m) (simp_all add: post_api_upload_def)
qed

lemma consistent_toggleFavorite:
  "consistent (storyboardData s) \<Longrightarrow> consistent (storyboardData (snd (toggleFavorite imageId s)))"
  by (auto simp: toggleFavorite_def consistent_def Let_def split: option.splits)

lemma consistent_deleteImage:
  "consistent (storyboardData s) \<Longrightarrow> consistent (storyboardData (snd (deleteImage imageId s)))"
  by (auto simp: deleteImage_def consistent_def Let_def split: option.splits)

lemma consistent_get_root:
  "consistent (storyboardData s) \<Longrightarrow> consistent (storyboardData (snd (get_root s)))"
  by (simp add: get_root_def consistent_def Let_def)

lemma reachable_consistent: "reachable s \<Longrightarrow> consistent (storyboardData s)"
proof (induction rule: reachable.induct)
  case (start F D)
  show ?case by (simp add: consistent_def empty_catalog_def)
next
  case (upload s req)
  then show ?case by (simp add: consistent_upload)
next
  case (favorite s id_param)
  then show ?case by (simp add: post_api_favorite_def consistent_toggleFavorite)
next
  case (delete s id_param)
  then show ?case by (simp add: delete_api_images_def consistent_deleteImage)
next
  case (visit s)
  then show ?case by (simp add: consistent_get_root)
next
  case (list s)
  then show ?case by (simp add: get_api_images_def)
next
  case (read_stats s)
  then show ?case by (simp add: get_api_stats_def)
next
  case (login s password)
  then show ?case by (simp add: post_api_login_def)
qed

text \<open>
  C1. In every state the server reaches from the empty catalog by uploads, favorite
  toggles, deletions, visits of the root page and the read-only requests,
  \<^verbatim>\<open>totalImages\<close> is the length of \<^verbatim>\<open>images\<close> and \<^verbatim>\<open>totalFavorites\<close> is the
  number of entries whose \<^verbatim>\<open>isFavorite\<close> is true.
\<close>

theorem counters_never_drift:
  "reachable s \<Longrightarrow>
     totalImages (stats (storyboardData s)) = int (length (images (storyboardData s))) \<and>
     totalFavorites (stats (storyboardData s)) =
       int (length (filter isFavorite (images (storyboardData s))))"
  using reachable_consistent [of s] by (simp add: consistent_def)

text \<open>
  The state after an upload to the fresh server, a toggle of the uploaded image and a
  visit: one image, one favorite.
\<close>

theorem counters_never_drift_witness:
  "reachable (snd (get_root (snd (post_api_favorite ''1700000000005''
      (snd (post_api_upload cat_upload fresh_server)))))) \<and>
   totalImages (stats (storyboardData (snd (get_root (snd (post_api_favorite ''1700000000005''
      (snd (post_api_upload cat_upload fresh_server)))))))) = 1 \<and>
   totalFavorites (stats (storyboardData (snd (get_root (snd (post_api_favorite ''1700000000005''
      (snd (post_api_upload cat_upload fresh_server)))))))) = 1"
proof -
  let ?s = "snd (get_root (snd (post_api_favorite ''1700000000005''
      (snd (post_api_upload cat_upload fresh_server)))))"
  have r: "reachable ?s"
    unfolding fresh_server_def by (intro reachable.visit reachable.favorite reachable.upload reachable.start)
  have p: "parseInt ''1700000000005'' = Number 1700000000005"
    by (simp add: parseInt_def TrimStart_def strip_sign_def isWhiteSpace_def is_radix_digit_def
        digit_value_def)
  have u: "storyboardData (snd (post_api_upload cat_upload fresh_server)) =
      \<lparr>images = [cat_image\<lparr>filename := uniqueName 1700000000000 123456789 ''cat.png'',
          url := ''/uploads/'' @ uniqueName 1700000000000 123456789 ''cat.png''\<rparr>],
       stats = \<lparr>totalVisits = 0, totalImages = 1, totalFavorites = 0\<rparr>\<rparr>"
    by (simp add: post_api_upload_def upload_single_def upload_handler_def cat_upload_def
        fresh_server_def fileSize_limit_def falsy_def Let_def empty_catalog_def cat_image_def)
  have "length (images (storyboardData ?s)) = 1 \<and>
      length (filter isFavorite (images (storyboardData ?s))) = 1"
    by (simp add: get_root_def post_api_favorite_def p toggleFavorite_def u id_is_def
        cat_image_def Let_def)
  with counters_never_drift [OF r] r show ?thesis by simp
qed

subsection \<open>Concrete evaluations\<close>

lemma extname_cat: "extname ''cat.png'' = ''.png''"
  by code_simp

lemma uniqueName_cat:
  "uniqueName 1700000000000 123456789 ''cat.png'' = ''1700000000000-123456789.png''"
  by (simp add: uniqueName_def number_to_string_def string_of_nat.simps digit_char_def
      extname_cat)

lemma parseInt_cat: "parseInt ''1700000000005'' = Number 1700000000005"
  by (simp add: parseInt_def TrimStart_def strip_sign_def isWhiteSpace_def is_radix_digit_def
        digit_value_def)

lemma parseInt_dog: "parseInt ''1690000000000'' = Number 1690000000000"
  by (simp add: parseInt_def TrimStart_def strip_sign_def isWhiteSpace_def is_radix_digit_def
        digit_value_def)

subsection \<open>Upload\<close>

text \<open>
  C2. A valid upload (an image part that passes the filter and the size limit, a
  non-empty title and a non-empty description) puts the new entry at index 0 of
  \<^verbatim>\<open>images\<close>, keeps the earlier entries behind it in their order, and sets
  \<^verbatim>\<open>totalImages\<close> to the length of the new sequence.
\<close>

theorem upload_prepends_entry:
  assumes "image_part req = Some f"
    and "take 6 (mimetype f) = ''image/''"
    and "size f \<le> fileSize_limit"
    and "title_field req = Some t" and "t \<noteq> []"
    and "description_field req = Some ds" and "ds \<noteq> []"
  shows "let name = uniqueName (filename_now req) (filename_random req) (originalname f);
             newImage = \<lparr>img_id = id_now req, title = t, description = ds, date = iso_now req,
                         isFavorite = False, filename = name, url = ''/uploads/'' @ name\<rparr>;
             s' = snd (post_api_upload req s)
         in fst (post_api_upload req s) =
              Response 200 (UploadBody newImage ''Image uploaded successfully'') \<and>
            images (storyboardData s') = newImage # images (storyboardData s) \<and>
            images (storyboardData s') ! 0 = newImage \<and>
            tl (images (storyboardData s')) = images (storyboardData s) \<and>
            totalImages (stats (storyboardData s')) = int (length (images (storyboardData s')))"
proof -
  let ?name = "uniqueName (filename_now req) (filename_random req) (originalname f)"
  let ?file = "\<lparr>file_filename = ?name, file_path = ''uploads/'' @ ?name\<rparr>"
  let ?s1 = "s\<lparr>files := insert (''uploads/'' @ ?name) (files s)\<rparr>"
  have m: "upload_single req s = (Passed (Some ?file), ?s1)"
    using assms(1-3) by (simp add: upload_single_def Let_def)
  have nf: "\<not> (falsy (title_field req) \<or> falsy (description_field req))"
    using assms(4-7) by (simp add: falsy_def)
  have "post_api_upload req s = upload_handler req (Some ?file) ?s1"
    by (simp add: post_api_upload_def m)
  then show ?thesis
    using nf assms(4,6) by (simp add: upload_handler_def Let_def)
qed

theorem upload_prepends_entry_witness:
  "fst (post_api_upload cat_upload two_images) =
     Response 200 (UploadBody cat_image ''Image uploaded successfully'') \<and>
   images (storyboardData (snd (post_api_upload cat_upload two_images))) =
     [cat_image, cat_image, dog_image] \<and>
   totalImages (stats (storyboardData (snd (post_api_upload cat_upload two_images)))) = 3"
proof -
  have "image_part cat_upload =
      Some \<lparr>originalname = ''cat.png'', mimetype = ''image/png'', size = 2048\<rparr>"
    and "title_field cat_upload = Some ''Cat''"
    and "description_field cat_upload = Some ''A cat''"
    by (simp_all add: cat_upload_def)
  from upload_prepends_entry [OF this(1) _ _ this(2) _ this(3), of two_images]
  show ?thesis
    by (simp add: fileSize_limit_def Let_def cat_upload_def uniqueName_cat cat_image_def
        two_images_def)
qed

subsection \<open>Delete\<close>

text \<open>
  C3. If some entry has the id, the delete handler removes the first such entry and no
  other (the entries before and after it stay in order), removes its file, sets
  \<^verbatim>\<open>totalImages\<close> to the new length and \<^verbatim>\<open>totalFavorites\<close> to the number of
  remaining favorites, and answers 200. If no entry has the id, it answers 404 and the
  state is the one before. An id of \<^verbatim>\<open>NaN\<close> is the id of no entry.
\<close>

theorem delete_removes_first_match:
  "((\<exists>img\<in>set (images (storyboardData s)). Number (img_id img) = imageId) \<longrightarrow>
      (\<exists>i<length (images (storyboardData s)).
         Number (img_id (images (storyboardData s) ! i)) = imageId \<and>
         (\<forall>j<i. Number (img_id (images (storyboardData s) ! j)) \<noteq> imageId) \<and>
         images (storyboardData (snd (deleteImage imageId s))) =
           take i (images (storyboardData s)) @ drop (Suc i) (images (storyboardData s)) \<and>
         files (snd (deleteImage imageId s)) =
           files s - {''uploads/'' @ filename (images (storyboardData s) ! i)}) \<and>
      totalImages (stats (storyboardData (snd (deleteImage imageId s)))) =
        int (length (images (storyboardData (snd (deleteImage imageId s))))) \<and>
      totalFavorites (stats (storyboardData (snd (deleteImage imageId s)))) =
        int (length (filter isFavorite (images (storyboardData (snd (deleteImage imageId s)))))) \<and>
      fst (deleteImage imageId s) = Response 200 (MessageBody ''Image deleted successfully'')) \<and>
   ((\<forall>img\<in>set (images (storyboardData s)). Number (img_id img) \<noteq> imageId) \<longrightarrow>
      deleteImage imageId s = (Response 404 (ErrorBody ''Image not found''), s))"
proof (cases "findIndex (id_is imageId) (images (storyboardData s))")
  case None
  then have "\<forall>img\<in>set (images (storyboardData s)). Number (img_id img) \<noteq> imageId"
    by (simp add: findIndex_None id_is_def)
  with None show ?thesis
    by (auto simp: deleteImage_def)
next
  case (Some i)
  from findIndex_Some [OF Some]
  have i: "i < length (images (storyboardData s))"
    "Number (img_id (images (storyboardData s) ! i)) = imageId"
    "\<forall>j<i. Number (img_id (images (storyboardData s) ! j)) \<noteq> imageId"
    by (simp_all add: id_is_def)
  have "\<not> (\<forall>img\<in>set (images (storyboardData s)). Number (img_id img) \<noteq> imageId)"
    using i(1,2) nth_mem by blast
  moreover have "images (storyboardData (snd (deleteImage imageId s))) =
      take i (images (storyboardData s)) @ drop (Suc i) (images (storyboardData s))"
    using Some by (simp add: deleteImage_def Let_def split: sum.splits)
  moreover have "files (snd (deleteImage imageId s)) =
      files s - {''uploads/'' @ filename (images (storyboardData s) ! i)}"
    using Some by (auto simp: deleteImage_def Let_def unlinkSync_def split: sum.splits)
  moreover have "totalImages (stats (storyboardData (snd (deleteImage imageId s)))) =
        int (length (images (storyboardData (snd (deleteImage imageId s))))) \<and>
      totalFavorites (stats (storyboardData (snd (deleteImage imageId s)))) =
        int (length (filter isFavorite (images (storyboardData (snd (deleteImage imageId s)))))) \<and>
      fst (deleteImage imageId s) = Response 200 (MessageBody ''Image deleted successfully'')"
    using Some by (simp add: deleteImage_def Let_def split: sum.splits)
  ultimately show ?thesis using i by blast
qed

theorem delete_removes_first_match_witness:
  "(\<exists>img\<in>set (images (storyboardData two_images)). Number (img_id img) = Number 1690000000000) \<and>
   images (storyboardData (snd (deleteImage (Number 1690000000000) two_images))) = [cat_image] \<and>
   files (snd (deleteImage (Number 1690000000000) two_images)) =
     {''uploads/1700000000000-123456789.png''} \<and>
   totalImages (stats (storyboardData (snd (deleteImage (Number 1690000000000) two_images)))) = 1 \<and>
   totalFavorites (stats (storyboardData (snd (deleteImage (Number 1690000000000) two_images)))) = 0 \<and>
   fst (deleteImage (Number 1690000000000) two_images) =
     Response 200 (MessageBody ''Image deleted successfully'') \<and>
   deleteImage NaN two_images = (Response 404 (ErrorBody ''Image not found''), two_images)"
proof -
  have h: "\<exists>img\<in>set (images (storyboardData two_images)).
      Number (img_id img) = Number 1690000000000"
    by (simp add: two_images_def dog_image_def)
  have n: "\<forall>img\<in>set (images (storyboardData two_images)). Number (img_id img) \<noteq> NaN"
    by simp
  have f: "findIndex (id_is (Number 1690000000000)) (images (storyboardData two_images)) = Some 1"
    by (simp add: two_images_def id_is_def cat_image_def dog_image_def)
  have i: "images (storyboardData (snd (deleteImage (Number 1690000000000) two_images))) =
      [cat_image]"
    by (simp add: deleteImage_def f Let_def) (simp add: two_images_def)
  have d: "files (snd (deleteImage (Number 1690000000000) two_images)) =
     {''uploads/1700000000000-123456789.png''}"
    by (simp add: deleteImage_def f Let_def unlinkSync_def)
      (auto simp: two_images_def dog_image_def)
  from delete_removes_first_match [of two_images "Number 1690000000000"] h
  have "totalImages (stats (storyboardData (snd (deleteImage (Number 1690000000000) two_images)))) =
        int (length (images (storyboardData (snd (deleteImage (Number 1690000000000) two_images))))) \<and>
      totalFavorites (stats (storyboardData (snd (deleteImage (Number 1690000000000) two_images)))) =
        int (length (filter isFavorite
          (images (storyboardData (snd (deleteImage (Number 1690000000000) two_images)))))) \<and>
      fst (deleteImage (Number 1690000000000) two_images) =
        Response 200 (MessageBody ''Image deleted successfully'')"
    by blast
  then show ?thesis
    using h d delete_removes_first_match [of two_images NaN] n
    by (simp add: i cat_image_def)
qed

subsection \<open>Favorite\<close>

lemma findIndex_same_ids:
  "map img_id xs = map img_id ys \<Longrightarrow> findIndex (id_is n) xs = findIndex (id_is n) ys"
proof (induction xs arbitrary: ys)
  case Nil
  then show ?case by simp
next
  case (Cons x xs)
  then obtain y ys' where "ys = y # ys'" by (cases ys) auto
  with Cons show ?case by (simp add: id_is_def)
qed

lemma map_img_id_flip:
  "map img_id (xs[i := (xs ! i)\<lparr>isFavorite := b\<rparr>]) = map img_id xs"
proof (cases "i < length xs")
  case True
  then show ?thesis
    by (simp add: map_update list_update_same_conv)
next
  case False
  then show ?thesis by (simp add: not_less list_update_beyond)
qed

lemma toggleFavorite_found:
  assumes "findIndex (id_is imageId) (images (storyboardData s)) = Some i"
  shows "fst (toggleFavorite imageId s) =
           Response 200 (FavoriteBody (\<not> isFavorite (images (storyboardData s) ! i)))"
    and "images (storyboardData (snd (toggleFavorite imageId s))) =
           (images (storyboardData s))
             [i := (images (storyboardData s) ! i)
                     \<lparr>isFavorite := \<not> isFavorite (images (storyboardData s) ! i)\<rparr>]"
    and "totalFavorites (stats (storyboardData (snd (toggleFavorite imageId s)))) =
           int (length (filter isFavorite (images (storyboardData (snd (toggleFavorite imageId s))))))"
    and "totalImages (stats (storyboardData (snd (toggleFavorite imageId s)))) =
           totalImages (stats (storyboardData s))"
    and "totalVisits (stats (storyboardData (snd (toggleFavorite imageId s)))) =
           totalVisits (stats (storyboardData s))"
  using assms by (simp_all add: toggleFavorite_def Let_def)

text \<open>
  C4, as the code has it. When some entry has the id, the first toggle flips the flag of
  the first such entry and the second toggle flips it back: after both, \<^verbatim>\<open>images\<close>
  is the sequence it was, and \<^verbatim>\<open>totalFavorites\<close> is the number of favorites there
  were, since line 133 counts them anew and never reads the old counter. In a state
  whose \<^verbatim>\<open>totalFavorites\<close> was that number (every reachable state, by C1),
  \<^verbatim>\<open>totalFavorites\<close> is therefore its original value and the whole catalog is as
  before.
\<close>

theorem toggle_twice_restores:
  assumes "\<exists>img\<in>set (images (storyboardData s)). Number (img_id img) = imageId"
  shows "\<exists>i<length (images (storyboardData s)).
           Number (img_id (images (storyboardData s) ! i)) = imageId \<and>
           fst (toggleFavorite imageId s) =
             Response 200 (FavoriteBody (\<not> isFavorite (images (storyboardData s) ! i))) \<and>
           isFavorite (images (storyboardData (snd (toggleFavorite imageId s))) ! i) =
             (\<not> isFavorite (images (storyboardData s) ! i)) \<and>
           fst (toggleFavorite imageId (snd (toggleFavorite imageId s))) =
             Response 200 (FavoriteBody (isFavorite (images (storyboardData s) ! i))) \<and>
           images (storyboardData (snd (toggleFavorite imageId (snd (toggleFavorite imageId s))))) =
             images (storyboardData s) \<and>
           totalFavorites (stats (storyboardData
               (snd (toggleFavorite imageId (snd (toggleFavorite imageId s)))))) =
             int (length (filter isFavorite (images (storyboardData s)))) \<and>
           (totalFavorites (stats (storyboardData s)) =
              int (length (filter isFavorite (images (storyboardData s)))) \<longrightarrow>
            storyboardData (snd (toggleFavorite imageId (snd (toggleFavorite imageId s)))) =
              storyboardData s)"
proof -
  let ?xs = "images (storyboardData s)"
  let ?s1 = "snd (toggleFavorite imageId s)"
  let ?s2 = "snd (toggleFavorite imageId ?s1)"
  from assms have "findIndex (id_is imageId) ?xs \<noteq> None"
    by (simp add: findIndex_None id_is_def)
  then obtain i where f: "findIndex (id_is imageId) ?xs = Some i"
    by blast
  from findIndex_Some [OF f] have i: "i < length ?xs" "Number (img_id (?xs ! i)) = imageId"
    by (simp_all add: id_is_def)
  note t1 = toggleFavorite_found [OF f]
  have xs1: "images (storyboardData ?s1) = ?xs[i := (?xs ! i)\<lparr>isFavorite := \<not> isFavorite (?xs ! i)\<rparr>]"
    by (rule t1(2))
  have "map img_id (images (storyboardData ?s1)) = map img_id ?xs"
    unfolding xs1 by (rule map_img_id_flip)
  then have f1: "findIndex (id_is imageId) (images (storyboardData ?s1)) = Some i"
    using f findIndex_same_ids by metis
  note t2 = toggleFavorite_found [OF f1]
  have xs2: "images (storyboardData ?s2) = ?xs"
    unfolding t2(2) xs1 using i(1) by (simp add: list_update_same_conv)
  have fav2: "totalFavorites (stats (storyboardData ?s2)) = int (length (filter isFavorite ?xs))"
    unfolding t2(3) xs2 by (rule refl)
  have flip: "isFavorite (images (storyboardData ?s1) ! i) = (\<not> isFavorite (?xs ! i))"
    unfolding xs1 using i(1) by simp
  have r2: "fst (toggleFavorite imageId ?s1) = Response 200 (FavoriteBody (isFavorite (?xs ! i)))"
    unfolding t2(1) flip by simp
  have same: "storyboardData ?s2 = storyboardData s"
    if "totalFavorites (stats (storyboardData s)) = int (length (filter isFavorite ?xs))"
  proof -
    have "stats (storyboardData ?s2) = stats (storyboardData s)"
      using that fav2 t1(4,5) t2(4,5) by (intro catalog_stats.equality) simp_all
    with xs2 show ?thesis
      by (intro catalog.equality) simp_all
  qed
  from i t1(1) flip r2 xs2 fav2 same show ?thesis
    by blast
qed

theorem toggle_twice_restores_witness:
  "(\<exists>img\<in>set (images (storyboardData two_images)). Number (img_id img) = Number 1700000000005) \<and>
   isFavorite (images (storyboardData (snd (toggleFavorite (Number 1700000000005) two_images))) ! 0) \<and>
   totalFavorites (stats (storyboardData
     (snd (toggleFavorite (Number 1700000000005) two_images)))) = 2 \<and>
   storyboardData (snd (toggleFavorite (Number 1700000000005)
     (snd (toggleFavorite (Number 1700000000005) two_images)))) = storyboardData two_images"
proof -
  have h: "\<exists>img\<in>set (images (storyboardData two_images)).
      Number (img_id img) = Number 1700000000005"
    by (simp add: two_images_def cat_image_def)
  have c: "totalFavorites (stats (storyboardData two_images)) =
      int (length (filter isFavorite (images (storyboardData two_images))))"
    by (simp add: two_images_def cat_image_def dog_image_def)
  have f: "findIndex (id_is (Number 1700000000005)) (images (storyboardData two_images)) = Some 0"
    by (simp add: two_images_def id_is_def cat_image_def)
  have "isFavorite (images (storyboardData (snd (toggleFavorite (Number 1700000000005) two_images))) ! 0) \<and>
     totalFavorites (stats (storyboardData
       (snd (toggleFavorite (Number 1700000000005) two_images)))) = 2"
    by (simp add: toggleFavorite_def f Let_def) (simp add: two_images_def cat_image_def dog_image_def)
  with toggle_twice_restores [OF h] c h show ?thesis
    by blast
qed

text \<open>
  C5. When no entry has the id, the favorite handler answers 404 and returns the state
  it was given: the images, the statistics, the files and \<^verbatim>\<open>data.json\<close> are
  untouched.
\<close>

theorem toggle_unknown_id_not_found:
  "\<forall>img\<in>set (images (storyboardData s)). Number (img_id img) \<noteq> imageId \<Longrightarrow>
     toggleFavorite imageId s = (Response 404 (ErrorBody ''Image not found''), s)"
proof -
  assume "\<forall>img\<in>set (images (storyboardData s)). Number (img_id img) \<noteq> imageId"
  then have "findIndex (id_is imageId) (images (storyboardData s)) = None"
    by (simp add: findIndex_None id_is_def)
  then show ?thesis
    by (simp add: toggleFavorite_def)
qed

theorem toggle_unknown_id_not_found_witness:
  "(\<forall>img\<in>set (images (storyboardData two_images)). Number (img_id img) \<noteq> Number 7) = True \<and>
   toggleFavorite (Number 7) two_images = (Response 404 (ErrorBody ''Image not found''), two_images)"
proof -
  have h: "\<forall>img\<in>set (images (storyboardData two_images)). Number (img_id img) \<noteq> Number 7"
    by (simp add: two_images_def cat_image_def dog_image_def)
  from toggle_unknown_id_not_found [OF h] h show ?thesis
    by simp
qed

subsection \<open>Login\<close>

text \<open>
  C9. The login handler answers 200 when the password is the string \<^verbatim>\<open>admin\<close> and
  401 for every other value, also when the body holds no password; the state is
  unchanged in both cases.
\<close>

theorem login_admin_only:
  "status (fst (post_api_login password s)) =
     (if password = Some (JString ''admin'') then 200 else 401) \<and>
   snd (post_api_login password s) = s"
  by (simp add: post_api_login_def)

theorem login_admin_only_witness:
  "status (fst (post_api_login (Some (JString ''admin'')) two_images)) = 200 \<and>
   status (fst (post_api_login (Some (JString ''Admin'')) two_images)) = 401 \<and>
   status (fst (post_api_login (Some (JNumber 0)) two_images)) = 401 \<and>
   status (fst (post_api_login None two_images)) = 401 \<and>
   snd (post_api_login (Some (JString ''admin'')) two_images) = two_images"
  using login_admin_only [of "Some (JString ''admin'')" two_images]
    login_admin_only [of "Some (JString ''Admin'')" two_images]
    login_admin_only [of "Some (JNumber 0)" two_images]
    login_admin_only [of None two_images]
  by simp

subsection \<open>Rejected uploads\<close>

text \<open>
  C6. When the image part passed multer (so its file was written to \<^verbatim>\<open>uploads/\<close>)
  and the title or the description is absent or empty, the request is answered with
  400, the file just written is deleted, and the catalog in memory and
  \<^verbatim>\<open>data.json\<close> are as before.
\<close>

theorem rejected_upload_removes_blob:
  assumes "image_part req = Some f"
    and "take 6 (mimetype f) = ''image/''"
    and "size f \<le> fileSize_limit"
    and "falsy (title_field req) \<or> falsy (description_field req)"
  shows "let p = ''uploads/'' @
                 uniqueName (filename_now req) (filename_random req) (originalname f)
         in fst (upload_single req s) =
              Passed (Some \<lparr>file_filename = drop 8 p, file_path = p\<rparr>) \<and>
            p \<in> files (snd (upload_single req s)) \<and>
            post_api_upload req s =
              (Response 400 (ErrorBody ''Title and description are required''),
               s\<lparr>files := files s - {p}\<rparr>) \<and>
            p \<notin> files (snd (post_api_upload req s)) \<and>
            storyboardData (snd (post_api_upload req s)) = storyboardData s \<and>
            data_json (snd (post_api_upload req s)) = data_json s"
proof -
  let ?name = "uniqueName (filename_now req) (filename_random req) (originalname f)"
  let ?p = "''uploads/'' @ ?name"
  let ?s1 = "s\<lparr>files := insert ?p (files s)\<rparr>"
  have m: "upload_single req s = (Passed (Some \<lparr>file_filename = ?name, file_path = ?p\<rparr>), ?s1)"
    using assms(1-3) by (simp add: upload_single_def Let_def)
  have u: "unlinkSync p (s\<lparr>files := insert p (files s)\<rparr>) = Inr (s\<lparr>files := files s - {p}\<rparr>)"
    for p by (simp add: unlinkSync_def)
  have "post_api_upload req s =
      (Response 400 (ErrorBody ''Title and description are required''), s\<lparr>files := files s - {?p}\<rparr>)"
    using assms(4) by (simp add: post_api_upload_def m upload_handler_def u)
  with m show ?thesis
    by (simp add: Let_def)
qed

theorem rejected_upload_removes_blob_witness:
  "falsy (title_field (cat_upload\<lparr>title_field := Some ''''\<rparr>)) \<and>
   ''uploads/1700000000000-123456789.png'' \<in>
     files (snd (upload_single (cat_upload\<lparr>title_field := Some ''''\<rparr>) fresh_server)) \<and>
   post_api_upload (cat_upload\<lparr>title_field := Some ''''\<rparr>) fresh_server =
     (Response 400 (ErrorBody ''Title and description are required''), fresh_server)"
proof -
  let ?req = "cat_upload\<lparr>title_field := Some ''''\<rparr>"
  have 1: "image_part ?req =
      Some \<lparr>originalname = ''cat.png'', mimetype = ''image/png'', size = 2048\<rparr>"
    by (simp add: cat_upload_def)
  have 2: "take 6 (mimetype \<lparr>originalname = ''cat.png'', mimetype = ''image/png'', size = 2048\<rparr>) =
      ''image/''"
    by simp
  have 3: "size \<lparr>originalname = ''cat.png'', mimetype = ''image/png'', size = 2048\<rparr> \<le>
      fileSize_limit"
    by (simp add: fileSize_limit_def)
  have 4: "falsy (title_field ?req) \<or> falsy (description_field ?req)"
    by (simp add: falsy_def)
  have n: "filename_now ?req = 1700000000000" "filename_random ?req = 123456789"
    by (simp_all add: cat_upload_def)
  have e: "fresh_server\<lparr>files := files fresh_server - {''uploads/1700000000000-123456789.png''}\<rparr> =
      fresh_server"
    by (simp add: fresh_server_def)
  from rejected_upload_removes_blob [OF 1 2 3 4, of fresh_server] 4 show ?thesis
    by (simp add: Let_def n uniqueName_cat e falsy_def)
qed

subsection \<open>The name of the stored file\<close>

lemma extname_loop_Suc:
  "extname_loop path (Suc i) v =
     (if path ! i = CHR ''/'' then
        (if \<not> matchedSlash v then v\<lparr>startPart := int i + 1\<rparr> else extname_loop path i v)
      else extname_loop path i (extname_body path i v))"
  by (simp add: extname_body_def Let_def)

lemma end_pos_body:
  "end_pos (extname_body path i v) = (if end_pos v = - 1 then int i + 1 else end_pos v)"
  by (simp add: extname_body_def Let_def)

lemma matchedSlash_body_eq:
  "matchedSlash (extname_body path i v) = (if end_pos v = - 1 then False else matchedSlash v)"
  by (simp add: extname_body_def Let_def)

lemma startDot_body:
  "startDot (extname_body path i v) =
     (if path ! i = CHR ''.'' \<and> startDot v = - 1 then int i else startDot v)"
  by (simp add: extname_body_def Let_def)

lemma extname_inv_window:
  assumes "extname_inv path n v"
  shows "extname_window path v"
proof (cases "end_pos v = - 1")
  case True
  then show ?thesis by (simp add: extname_window_def)
next
  case False
  with assms have inv: "int n \<le> end_pos v" "end_pos v \<le> int (length path)"
    "\<And>j. n \<le> j \<Longrightarrow> int j < end_pos v \<Longrightarrow> path ! j \<noteq> CHR ''/''"
    "startDot v \<noteq> - 1 \<Longrightarrow> int n \<le> startDot v \<and> startDot v < end_pos v"
    by (simp_all add: extname_inv_def)
  show ?thesis
    unfolding extname_window_def
  proof (intro impI conjI allI)
    assume a: "startDot v \<noteq> - 1 \<and> end_pos v \<noteq> - 1"
    with inv(4) show "0 \<le> startDot v" "startDot v < end_pos v" by linarith+
    show "end_pos v \<le> int (length path)" by (rule inv(2))
    fix j assume "startDot v \<le> int j \<and> int j < end_pos v"
    with inv(4) a have "n \<le> j" "int j < end_pos v" by linarith+
    then show "path ! j \<noteq> CHR ''/''" by (rule inv(3))
  qed
qed

lemma extname_inv_body:
  assumes inv: "extname_inv path (Suc i) v"
    and len: "Suc i \<le> length path"
    and ch: "path ! i \<noteq> CHR ''/''"
  shows "extname_inv path i (extname_body path i v)"
proof (cases "end_pos v = - 1")
  case True
  with inv have sd: "startDot v = - 1" by (simp add: extname_inv_def)
  have e: "end_pos (extname_body path i v) = int i + 1"
    using True by (simp add: end_pos_body)
  have m: "\<not> matchedSlash (extname_body path i v)"
    using True by (simp add: matchedSlash_body_eq)
  have s: "startDot (extname_body path i v) = - 1 \<or> startDot (extname_body path i v) = int i"
    using sd by (simp add: startDot_body)
  have w: "path ! j \<noteq> CHR ''/''" if "i \<le> j" "int j < int i + 1" for j
  proof -
    from that have "j = i" by linarith
    with ch show ?thesis by simp
  qed
  from e m s w len show ?thesis
    unfolding extname_inv_def by auto
next
  case False
  with inv have old: "\<not> matchedSlash v" "int (Suc i) \<le> end_pos v" "end_pos v \<le> int (length path)"
    "\<And>j. Suc i \<le> j \<Longrightarrow> int j < end_pos v \<Longrightarrow> path ! j \<noteq> CHR ''/''"
    "startDot v \<noteq> - 1 \<Longrightarrow> int (Suc i) \<le> startDot v \<and> startDot v < end_pos v"
    by (simp_all add: extname_inv_def)
  have e: "end_pos (extname_body path i v) = end_pos v"
    using False by (simp add: end_pos_body)
  have m: "\<not> matchedSlash (extname_body path i v)"
    using False old(1) by (simp add: matchedSlash_body_eq)
  have s: "startDot (extname_body path i v) = startDot v \<or>
      startDot (extname_body path i v) = int i"
    by (simp add: startDot_body)
  have w: "path ! j \<noteq> CHR ''/''" if "i \<le> j" "int j < end_pos v" for j
  proof (cases "j = i")
    case True
    with ch show ?thesis by simp
  next
    case False
    with that have "Suc i \<le> j" by linarith
    then show ?thesis using that(2) by (rule old(4))
  qed
  have sd: "int i \<le> startDot (extname_body path i v) \<and>
      startDot (extname_body path i v) < end_pos v"
    if "startDot (extname_body path i v) \<noteq> - 1"
    using s that old(2,5) by auto
  show ?thesis
    unfolding extname_inv_def e
    using False m old(2,3) w sd by auto
qed

lemma extname_loop_window:
  "extname_inv path n v \<Longrightarrow> n \<le> length path \<Longrightarrow> extname_window path (extname_loop path n v)"
proof (induction n arbitrary: v)
  case 0
  then show ?case by (simp add: extname_inv_window)
next
  case (Suc i)
  from Suc.prems(2) have le: "i \<le> length path" by simp
  show ?case
  proof (cases "path ! i = CHR ''/''")
    case slash: True
    show ?thesis
    proof (cases "matchedSlash v")
      case True
      with Suc.prems(1) have "extname_inv path i v"
        by (auto simp: extname_inv_def split: if_splits)
      from Suc.IH [OF this le] slash True show ?thesis
        by (simp add: extname_loop_Suc del: extname_loop.simps)
    next
      case False
      have "extname_window path (v\<lparr>startPart := int i + 1\<rparr>)"
        using extname_inv_window [OF Suc.prems(1)] by (simp add: extname_window_def)
      with slash False show ?thesis
        by (simp add: extname_loop_Suc del: extname_loop.simps)
    qed
  next
    case False
    from Suc.IH [OF extname_inv_body [OF Suc.prems(1) Suc.prems(2) False] le] False
    show ?thesis
      by (simp add: extname_loop_Suc del: extname_loop.simps)
  qed
qed

lemma slice_window:
  assumes "c \<in> set (slice path a b)"
  shows "\<exists>j. a \<le> j \<and> j < b \<and> j < length path \<and> c = path ! j"
proof -
  from assms obtain k where "k < b - a" "a + k < length path" "c = path ! (a + k)"
    by (auto simp: slice_def in_set_conv_nth)
  then have "a \<le> a + k \<and> a + k < b \<and> a + k < length path \<and> c = path ! (a + k)"
    by simp
  then show ?thesis ..
qed

lemma extname_no_slash: "CHR ''/'' \<notin> set (extname path)"
proof -
  define v where "v = extname_loop path (length path)
      \<lparr>startDot = - 1, startPart = 0, end_pos = - 1, matchedSlash = True, preDotState = 0\<rparr>"
  have w: "extname_window path v"
    unfolding v_def by (rule extname_loop_window) (simp_all add: extname_inv_def)
  have e: "extname path = [] \<or> (startDot v \<noteq> - 1 \<and> end_pos v \<noteq> - 1 \<and>
      extname path = slice path (nat (startDot v)) (nat (end_pos v)))"
    unfolding extname_def v_def [symmetric] Let_def by simp
  show ?thesis
  proof
    assume "CHR ''/'' \<in> set (extname path)"
    with e have d: "startDot v \<noteq> - 1" "end_pos v \<noteq> - 1"
      and "CHR ''/'' \<in> set (slice path (nat (startDot v)) (nat (end_pos v)))"
      by auto
    from slice_window [OF this(3)] obtain j where j: "nat (startDot v) \<le> j" "j < nat (end_pos v)"
      "CHR ''/'' = path ! j"
      by blast
    from w d have "0 \<le> startDot v"
      and ns: "\<And>j. startDot v \<le> int j \<Longrightarrow> int j < end_pos v \<Longrightarrow> path ! j \<noteq> CHR ''/''"
      by (simp_all add: extname_window_def)
    with j(1,2) have "startDot v \<le> int j" "int j < end_pos v"
      by linarith+
    from ns [OF this] j(3) show False by simp
  qed
qed
lemma of_char_digit_char: "d < 10 \<Longrightarrow> (of_char (digit_char d) :: nat) = 48 + d"
proof -
  assume "d < 10"
  then have "d \<in> {0, 1, 2, 3, 4, 5, 6, 7, 8, 9}"
    by auto
  then show ?thesis
    by (auto simp: digit_char_def)
qed

lemma digit_char_not_slash: "d < 10 \<Longrightarrow> digit_char d \<noteq> CHR ''/''"
  using of_char_digit_char [of d] by auto

lemma string_of_nat_no_slash: "CHR ''/'' \<notin> set (string_of_nat n)"
proof (induction n rule: string_of_nat.induct)
  case (1 n)
  show ?case
  proof (cases "n < 10")
    case True
    then show ?thesis
      using digit_char_not_slash [of n] by (subst string_of_nat.simps) simp
  next
    case False
    with "1" have "CHR ''/'' \<notin> set (string_of_nat (n div 10))"
      by simp
    moreover have "digit_char (n mod 10) \<noteq> CHR ''/''"
      by (rule digit_char_not_slash) simp
    ultimately show ?thesis
      using False by (subst string_of_nat.simps) auto
  qed
qed

lemma uniqueName_no_slash: "CHR ''/'' \<notin> set (uniqueName now rnd original)"
  by (simp add: uniqueName_def number_to_string_def string_of_nat_no_slash extname_no_slash)

lemma extname_html: "extname ''cat.html'' = ''.html''"
  by code_simp

text \<open>
  C7, as the code has it. The stored name is the decimal timestamp, \<^verbatim>\<open>-\<close>, the
  decimal random number and \<^verbatim>\<open>path.extname\<close> of the original file name. Two uploads
  with the same timestamp, random number, content type and size whose original names
  have the same extension get the same stored name and path, whatever their titles,
  their descriptions and the rest of their original names; and the stored name holds no
  \<^verbatim>\<open>/\<close>, so the file stays in \<^verbatim>\<open>uploads/\<close>.
\<close>

theorem stored_name_depends_on_extension_only:
  assumes "image_part req1 = Some f1" and "image_part req2 = Some f2"
    and "mimetype f1 = mimetype f2" and "size f1 = size f2"
    and "filename_now req1 = filename_now req2"
    and "filename_random req1 = filename_random req2"
    and "extname (originalname f1) = extname (originalname f2)"
  shows "fst (upload_single req1 s) = fst (upload_single req2 s) \<and>
         files (snd (upload_single req1 s)) = files (snd (upload_single req2 s)) \<and>
         (\<forall>rf. fst (upload_single req1 s) = Passed (Some rf) \<longrightarrow>
            file_filename rf =
              number_to_string (filename_now req1) @ ''-'' @
              number_to_string (filename_random req1) @ extname (originalname f1) \<and>
            file_path rf = ''uploads/'' @ file_filename rf \<and>
            CHR ''/'' \<notin> set (file_filename rf))"
proof -
  have n: "uniqueName (filename_now req1) (filename_random req1) (originalname f1) =
      uniqueName (filename_now req2) (filename_random req2) (originalname f2)"
    using assms(5-7) by (simp add: uniqueName_def)
  have "fst (upload_single req1 s) = fst (upload_single req2 s)"
    and "files (snd (upload_single req1 s)) = files (snd (upload_single req2 s))"
    using assms(1-4) n by (simp_all add: upload_single_def Let_def)
  moreover have "file_filename rf =
        number_to_string (filename_now req1) @ ''-'' @
        number_to_string (filename_random req1) @ extname (originalname f1) \<and>
      file_path rf = ''uploads/'' @ file_filename rf \<and>
      CHR ''/'' \<notin> set (file_filename rf)"
    if "fst (upload_single req1 s) = Passed (Some rf)" for rf
  proof -
    from that assms(1)
    have "rf = \<lparr>file_filename = uniqueName (filename_now req1) (filename_random req1) (originalname f1),
        file_path = ''uploads/'' @ uniqueName (filename_now req1) (filename_random req1) (originalname f1)\<rparr>"
      by (simp add: upload_single_def Let_def split: if_splits)
    then have "file_filename rf = uniqueName (filename_now req1) (filename_random req1) (originalname f1)"
      and "file_path rf = ''uploads/'' @ file_filename rf"
      by simp_all
    then show ?thesis
      using uniqueName_no_slash [of "filename_now req1" "filename_random req1" "originalname f1"]
      by (simp add: uniqueName_def)
  qed
  ultimately show ?thesis by blast
qed

text \<open>
  Two uploads that differ in everything the user types (the title, the description and
  the original name up to its extension) store the same file name.
\<close>

theorem stored_name_depends_on_extension_only_witness:
  "extname ''cat.png'' = extname ''../../etc/passwd.png'' \<and>
   fst (upload_single cat_upload fresh_server) =
     Passed (Some \<lparr>file_filename = ''1700000000000-123456789.png'',
       file_path = ''uploads/1700000000000-123456789.png''\<rparr>) \<and>
   fst (upload_single
         (cat_upload\<lparr>image_part := Some \<lparr>originalname = ''../../etc/passwd.png'',
            mimetype = ''image/png'', size = 2048\<rparr>,
            title_field := Some ''Dog'', description_field := None\<rparr>) fresh_server) =
     Passed (Some \<lparr>file_filename = ''1700000000000-123456789.png'',
       file_path = ''uploads/1700000000000-123456789.png''\<rparr>)"
proof -
  let ?f1 = "\<lparr>originalname = ''cat.png'', mimetype = ''image/png'', size = 2048\<rparr>"
  let ?f2 = "\<lparr>originalname = ''../../etc/passwd.png'', mimetype = ''image/png'', size = 2048\<rparr>"
  let ?req2 = "cat_upload\<lparr>image_part := Some ?f2, title_field := Some ''Dog'',
      description_field := None\<rparr>"
  have e: "extname ''../../etc/passwd.png'' = ''.png''"
    by code_simp
  have 1: "image_part cat_upload = Some ?f1" and 2: "image_part ?req2 = Some ?f2"
    and 3: "mimetype ?f1 = mimetype ?f2" and 4: "size ?f1 = size ?f2"
    and 5: "filename_now cat_upload = filename_now ?req2"
    and 6: "filename_random cat_upload = filename_random ?req2"
    by (simp_all add: cat_upload_def)
  have 7: "extname (originalname ?f1) = extname (originalname ?f2)"
    by (simp add: e extname_cat)
  have u: "fst (upload_single cat_upload fresh_server) =
     Passed (Some \<lparr>file_filename = ''1700000000000-123456789.png'',
       file_path = ''uploads/1700000000000-123456789.png''\<rparr>)"
    by (simp add: upload_single_def cat_upload_def fileSize_limit_def uniqueName_cat Let_def)
  from stored_name_depends_on_extension_only [OF 1 2 3 4 5 6 7, of fresh_server] u 7
  show ?thesis
    by (simp add: extname_cat e)
qed

text \<open>
  C7 as stated fails: two uploads that differ only in the original file name store
  different file names, since the extension of the original name is appended.
\<close>

theorem stored_name_follows_original_name:
  "fst (upload_single cat_upload fresh_server) =
     Passed (Some \<lparr>file_filename = ''1700000000000-123456789.png'',
       file_path = ''uploads/1700000000000-123456789.png''\<rparr>) \<and>
   fst (upload_single
         (cat_upload\<lparr>image_part := Some \<lparr>originalname = ''cat.html'',
            mimetype = ''image/png'', size = 2048\<rparr>\<rparr>) fresh_server) =
     Passed (Some \<lparr>file_filename = ''1700000000000-123456789.html'',
       file_path = ''uploads/1700000000000-123456789.html''\<rparr>)"
proof -
  have "uniqueName 1700000000000 123456789 ''cat.html'' = ''1700000000000-123456789.html''"
    by (simp add: uniqueName_def number_to_string_def string_of_nat.simps digit_char_def
        extname_html)
  then show ?thesis
    by (simp add: upload_single_def cat_upload_def fileSize_limit_def uniqueName_cat Let_def)
qed

subsection \<open>The id parameter\<close>

lemma is_decimal_digit_iff:
  "is_radix_digit 10 c \<longleftrightarrow> 48 \<le> (of_char c :: nat) \<and> (of_char c :: nat) \<le> 57"
  by (auto simp: is_radix_digit_def digit_value_def Let_def)

lemma decimal_digit_plain:
  assumes "is_radix_digit 10 c"
  shows "\<not> isWhiteSpace c" and "c \<noteq> CHR ''+''" and "c \<noteq> CHR ''-''"
    and "c \<noteq> CHR ''x''" and "c \<noteq> CHR ''X''"
  using assms by (auto simp: is_decimal_digit_iff isWhiteSpace_def)

lemma takeWhile_prefix:
  assumes "\<forall>c\<in>set ds. P c" and "rest = [] \<or> \<not> P (hd rest)"
  shows "takeWhile P (ds @ rest) = ds"
proof -
  from assms(2) have "takeWhile P rest = []"
    by (cases rest) auto
  with assms(1) show ?thesis
    by (simp add: takeWhile_append2)
qed

lemma toggleFavorite_NaN:
  "toggleFavorite NaN s = (Response 404 (ErrorBody ''Image not found''), s)"
proof -
  have "findIndex (id_is NaN) (images (storyboardData s)) = None"
    by (simp add: findIndex_None id_is_def)
  then show ?thesis by (simp add: toggleFavorite_def)
qed

lemma deleteImage_NaN:
  "deleteImage NaN s = (Response 404 (ErrorBody ''Image not found''), s)"
proof -
  have "findIndex (id_is NaN) (images (storyboardData s)) = None"
    by (simp add: findIndex_None id_is_def)
  then show ?thesis by (simp add: deleteImage_def)
qed

lemma parseInt_no_digit:
  assumes "strip_sign (TrimStart p) = [] \<or> \<not> is_radix_digit 10 (hd (strip_sign (TrimStart p)))"
  shows "parseInt p = NaN"
proof (cases "strip_sign (TrimStart p)")
  case Nil
  then show ?thesis by (simp add: parseInt_def Let_def)
next
  case (Cons c cs)
  with assms have nd: "\<not> is_radix_digit 10 c" by simp
  have z: "is_radix_digit 10 (CHR ''0'')"
    by (simp add: is_decimal_digit_iff)
  with nd have "c \<noteq> CHR ''0''" by auto
  with Cons nd show ?thesis
    by (simp add: parseInt_def Let_def)
qed

lemma parseInt_digit_prefix:
  assumes ws: "\<forall>c\<in>set ws. isWhiteSpace c"
    and sg: "sg \<in> {[], ''+'', ''-''}"
    and ds: "ds \<noteq> []" "\<forall>c\<in>set ds. is_radix_digit 10 c"
    and rest: "rest = [] \<or> \<not> is_radix_digit 10 (hd rest)"
    and nohex: "\<not> (ds = ''0'' \<and> rest \<noteq> [] \<and> hd rest \<in> {CHR ''x'', CHR ''X''})"
  shows "parseInt (ws @ sg @ ds @ rest) =
           Number ((if sg = ''-'' then - 1 else 1) * int (digits_value 10 0 ds))"
proof -
  from ds obtain d ds' where d: "ds = d # ds'" "is_radix_digit 10 d"
    by (cases ds) auto
  note plain = decimal_digit_plain [OF d(2)]
  have nws: "\<not> isWhiteSpace (hd (sg @ ds @ rest))"
    using sg d(1) plain(1) by (auto simp: isWhiteSpace_def)
  have ne: "sg @ ds @ rest \<noteq> []"
    using ds(1) by simp
  have trim: "TrimStart (ws @ sg @ ds @ rest) = sg @ ds @ rest"
    unfolding TrimStart_def using ws nws ne
    by (cases "sg @ ds @ rest") (simp_all add: dropWhile_append2)
  have strip: "strip_sign (sg @ ds @ rest) = ds @ rest"
    using sg d(1) plain(2,3) by (auto simp: strip_sign_def)
  have sign: "(if sg @ ds @ rest \<noteq> [] \<and> hd (sg @ ds @ rest) = CHR ''-'' then - 1 else 1 :: int) =
      (if sg = ''-'' then - 1 else 1)"
    using sg d(1) plain(3) by auto
  have hex: "\<not> (take 2 (ds @ rest) = ''0x'' \<or> take 2 (ds @ rest) = ''0X'')"
  proof (cases ds')
    case Nil
    with d(1) nohex show ?thesis
      by (cases rest) auto
  next
    case (Cons e es)
    with d(1) ds(2) have "is_radix_digit 10 e" by simp
    from decimal_digit_plain(4,5) [OF this] d(1) Cons show ?thesis
      by simp
  qed
  have z: "takeWhile (is_radix_digit 10) (ds @ rest) = ds"
    using ds(2) rest by (rule takeWhile_prefix)
  show ?thesis
    unfolding parseInt_def Let_def trim strip sign
    using hex z ds(1) by simp
qed

text \<open>
  C10, as the code has it. Both handlers look up \<^verbatim>\<open>parseInt\<close> of the parameter.
  \<^verbatim>\<open>parseInt\<close> skips leading white space and one sign. A parameter with no decimal
  digit at that point parses to \<^verbatim>\<open>NaN\<close>, and \<^verbatim>\<open>NaN\<close> always yields 404 with the
  state unchanged. A parameter with decimal digits at that point followed by text that
  is not a digit is the id of the signed numeric prefix, unless the digits are a single
  \<^verbatim>\<open>0\<close> followed by \<^verbatim>\<open>x\<close> or \<^verbatim>\<open>X\<close>, which selects radix 16.
\<close>

theorem parseInt_selects_the_id:
  "(post_api_favorite p s = toggleFavorite (parseInt p) s \<and>
    delete_api_images p s = deleteImage (parseInt p) s) \<and>
   (parseInt p = NaN \<longrightarrow>
      post_api_favorite p s = (Response 404 (ErrorBody ''Image not found''), s) \<and>
      delete_api_images p s = (Response 404 (ErrorBody ''Image not found''), s)) \<and>
   (strip_sign (TrimStart p) = [] \<or> \<not> is_radix_digit 10 (hd (strip_sign (TrimStart p))) \<longrightarrow>
      parseInt p = NaN) \<and>
   ((\<forall>c\<in>set ws. isWhiteSpace c) \<and> sg \<in> {[], ''+'', ''-''} \<and>
    ds \<noteq> [] \<and> (\<forall>c\<in>set ds. is_radix_digit 10 c) \<and> digits_value 10 0 ds < 2 ^ 53 \<and>
    (rest = [] \<or> \<not> is_radix_digit 10 (hd rest)) \<and>
    \<not> (ds = ''0'' \<and> rest \<noteq> [] \<and> hd rest \<in> {CHR ''x'', CHR ''X''}) \<longrightarrow>
      parseInt (ws @ sg @ ds @ rest) =
        Number ((if sg = ''-'' then - 1 else 1) * int (digits_value 10 0 ds)))"
  using parseInt_no_digit [of p] parseInt_digit_prefix [of ws sg ds rest]
  by (simp add: post_api_favorite_def delete_api_images_def toggleFavorite_NaN deleteImage_NaN)

theorem parseInt_selects_the_id_witness:
  "parseInt ''abc'' = NaN \<and>
   post_api_favorite ''abc'' two_images = (Response 404 (ErrorBody ''Image not found''), two_images) \<and>
   parseInt ''1690000000000abc'' = Number 1690000000000 \<and>
   fst (delete_api_images ''1690000000000abc'' two_images) =
     Response 200 (MessageBody ''Image deleted successfully'') \<and>
   images (storyboardData (snd (delete_api_images ''1690000000000abc'' two_images))) = [cat_image]"
proof -
  have a: "strip_sign (TrimStart ''abc'') = [] \<or>
      \<not> is_radix_digit 10 (hd (strip_sign (TrimStart ''abc'')))"
    by (simp add: strip_sign_def TrimStart_def isWhiteSpace_def is_decimal_digit_iff)
  have v: "digits_value 10 0 ''1690000000000'' = 1690000000000"
    by (simp add: digit_value_def)
  have d: "(\<forall>c\<in>set []. isWhiteSpace c) \<and> [] \<in> {[], ''+'', ''-''} \<and>
      ''1690000000000'' \<noteq> [] \<and> (\<forall>c\<in>set ''1690000000000''. is_radix_digit 10 c) \<and>
      digits_value 10 0 ''1690000000000'' < 2 ^ 53 \<and>
      (''abc'' = [] \<or> \<not> is_radix_digit 10 (hd ''abc'')) \<and>
      \<not> (''1690000000000'' = ''0'' \<and> ''abc'' \<noteq> [] \<and> hd ''abc'' \<in> {CHR ''x'', CHR ''X''})"
    unfolding v by (simp add: is_decimal_digit_iff)
  have f: "findIndex (id_is (Number 1690000000000)) (images (storyboardData two_images)) = Some 1"
    by (simp add: two_images_def id_is_def cat_image_def dog_image_def)
  have del: "fst (deleteImage (Number 1690000000000) two_images) =
      Response 200 (MessageBody ''Image deleted successfully'') \<and>
    images (storyboardData (snd (deleteImage (Number 1690000000000) two_images))) = [cat_image]"
    by (simp add: deleteImage_def f Let_def) (simp add: two_images_def)
  from parseInt_selects_the_id [of "''abc''" two_images "[]" "[]" "''1690000000000''" "''abc''"]
    a d
  have "parseInt ''abc'' = NaN \<and>
    post_api_favorite ''abc'' two_images =
      (Response 404 (ErrorBody ''Image not found''), two_images) \<and>
    parseInt ([] @ [] @ ''1690000000000'' @ ''abc'') =
      Number ((if [] = ''-'' then - 1 else 1) * int (digits_value 10 0 ''1690000000000''))"
    by blast
  then have "parseInt ''abc'' = NaN"
    and "post_api_favorite ''abc'' two_images =
      (Response 404 (ErrorBody ''Image not found''), two_images)"
    and "parseInt ''1690000000000abc'' = Number 1690000000000"
    unfolding v by simp_all
  with del show ?thesis
    by (simp add: delete_api_images_def)
qed

text \<open>
  C10 as stated fails twice. A parameter that starts with a sign has no leading digit,
  yet it is the id of an entry and toggles it; and \<^verbatim>\<open>0x10\<close>, digits followed by
  text, is the id 16 and not its decimal prefix 0.
\<close>

theorem signed_parameter_is_an_id:
  "fst (post_api_favorite ''+1700000000005'' two_images) = Response 200 (FavoriteBody True) \<and>
   isFavorite (images (storyboardData (snd (post_api_favorite ''+1700000000005'' two_images))) ! 0) \<and>
   parseInt '' -7'' = Number (- 7) \<and>
   parseInt ''0x10'' = Number 16"
proof -
  have p: "parseInt ''+1700000000005'' = Number 1700000000005"
    by (simp add: parseInt_def TrimStart_def strip_sign_def isWhiteSpace_def is_radix_digit_def
        digit_value_def)
  have f: "findIndex (id_is (Number 1700000000005)) (images (storyboardData two_images)) = Some 0"
    by (simp add: two_images_def id_is_def cat_image_def)
  have "fst (post_api_favorite ''+1700000000005'' two_images) = Response 200 (FavoriteBody True) \<and>
   isFavorite (images (storyboardData (snd (post_api_favorite ''+1700000000005'' two_images))) ! 0)"
    by (simp add: post_api_favorite_def p toggleFavorite_def f Let_def)
      (simp add: two_images_def cat_image_def)
  moreover have "parseInt '' -7'' = Number (- 7)" "parseInt ''0x10'' = Number 16"
    by (simp_all add: parseInt_def TrimStart_def strip_sign_def isWhiteSpace_def
        is_radix_digit_def digit_value_def)
  ultimately show ?thesis by simp
qed

subsection \<open>Numbers and strings read back\<close>

lemma digit_value_digit_char: "d < 10 \<Longrightarrow> digit_value (digit_char d) = Some d"
  using of_char_digit_char [of d] by (simp add: digit_value_def Let_def)

lemma is_digit_digit_char: "d < 10 \<Longrightarrow> is_radix_digit 10 (digit_char d)"
  by (simp add: is_radix_digit_def digit_value_digit_char)

lemma string_of_nat_not_Nil: "string_of_nat n \<noteq> []"
  by (subst string_of_nat.simps) simp

lemma string_of_nat_digits: "c \<in> set (string_of_nat n) \<Longrightarrow> is_radix_digit 10 c"
proof (induction n arbitrary: c rule: string_of_nat.induct)
  case (1 n)
  show ?case
  proof (cases "n < 10")
    case True
    with "1.prems" have "c = digit_char n"
      by (subst (asm) string_of_nat.simps) simp
    with True show ?thesis by (simp add: is_digit_digit_char)
  next
    case False
    with "1.prems" have "c \<in> set (string_of_nat (n div 10)) \<or> c = digit_char (n mod 10)"
      by (subst (asm) string_of_nat.simps) auto
    then show ?thesis
      using "1.IH" [OF False] by (auto simp: is_digit_digit_char)
  qed
qed

lemma digits_value_append:
  "digits_value R acc (xs @ ys) = digits_value R (digits_value R acc xs) ys"
  by (induction xs arbitrary: acc) simp_all

lemma digits_value_string_of_nat: "digits_value 10 0 (string_of_nat n) = n"
proof (induction n rule: string_of_nat.induct)
  case (1 n)
  show ?case
  proof (cases "n < 10")
    case True
    then show ?thesis
      by (subst string_of_nat.simps) (simp add: digit_value_digit_char)
  next
    case False
    have "digits_value 10 0 (string_of_nat (n div 10) @ [digit_char (n mod 10)]) =
        (n div 10) * 10 + n mod 10"
      by (simp add: digits_value_append "1.IH" [OF False] digit_value_digit_char)
    with False show ?thesis
      by (subst string_of_nat.simps) simp
  qed
qed

lemma hd_string_of_nat: "0 < n \<Longrightarrow> hd (string_of_nat n) \<noteq> CHR ''0''"
proof (induction n rule: string_of_nat.induct)
  case (1 n)
  show ?case
  proof (cases "n < 10")
    case True
    with "1.prems" of_char_digit_char [of n] have "digit_char n \<noteq> CHR ''0''"
      by auto
    with True show ?thesis
      by (subst string_of_nat.simps) simp
  next
    case False
    then have "0 < n div 10" by simp
    from "1.IH" [OF False this] False show ?thesis
      by (subst string_of_nat.simps) (simp add: string_of_nat_not_Nil)
  qed
qed

lemma length_string_of_nat: "1 < length (string_of_nat n) \<Longrightarrow> 0 < n"
  by (cases "n = 0") (simp_all add: string_of_nat.simps)

lemma dropWhile_prefix:
  assumes "\<forall>c\<in>set ds. P c" and "rest = [] \<or> \<not> P (hd rest)"
  shows "dropWhile P (ds @ rest) = rest"
proof -
  from assms(2) have "dropWhile P rest = rest"
    by (cases rest) auto
  with assms(1) show ?thesis
    by (simp add: dropWhile_append2)
qed

lemma parse_number_string_of_nat:
  assumes "m < 2 ^ 53" and "ends_number rest"
  shows "parse_number (string_of_nat m @ rest) = Inr (JNumber (int m), rest)"
proof -
  let ?ds = "string_of_nat m"
  have d: "\<forall>c\<in>set ?ds. is_radix_digit 10 c"
    by (simp add: string_of_nat_digits)
  from assms(2) have r: "rest = [] \<or> \<not> is_radix_digit 10 (hd rest)"
    by (auto simp: ends_number_def)
  have h: "hd (?ds @ rest) \<noteq> CHR ''-''"
    using d string_of_nat_not_Nil [of m] decimal_digit_plain(3) [of "hd ?ds"]
    by (cases ?ds) auto
  have t: "takeWhile (is_radix_digit 10) (?ds @ rest) = ?ds"
    using d r by (rule takeWhile_prefix)
  have dr: "dropWhile (is_radix_digit 10) (?ds @ rest) = rest"
    using d r by (rule dropWhile_prefix)
  have z: "\<not> (1 < length ?ds \<and> hd ?ds = CHR ''0'')"
    using length_string_of_nat [of m] hd_string_of_nat [of m] by blast
  have e: "\<not> (rest \<noteq> [] \<and> (hd rest = CHR ''.'' \<or> hd rest = CHR ''e'' \<or> hd rest = CHR ''E''))"
    using assms(2) by (auto simp: ends_number_def)
  show ?thesis
    unfolding parse_number_def Let_def
    using h t dr z e assms(1) string_of_nat_not_Nil [of m]
    by (simp add: digits_value_string_of_nat)
qed

lemma parse_number_number_to_string:
  assumes "\<bar>n\<bar> < 2 ^ 53" and "ends_number rest"
  shows "parse_number (number_to_string n @ rest) = Inr (JNumber n, rest)"
proof (cases "n < 0")
  case False
  with assms(1) have "nat n < 2 ^ 53" by (simp add: nat_less_iff)
  from parse_number_string_of_nat [OF this assms(2)] False show ?thesis
    by (simp add: number_to_string_def)
next
  case True
  let ?ds = "string_of_nat (nat (- n))"
  from True assms(1) have m: "nat (- n) < 2 ^ 53" by (simp add: nat_less_iff)
  have d: "\<forall>c\<in>set ?ds. is_radix_digit 10 c"
    by (simp add: string_of_nat_digits)
  from assms(2) have r: "rest = [] \<or> \<not> is_radix_digit 10 (hd rest)"
    by (auto simp: ends_number_def)
  have t: "takeWhile (is_radix_digit 10) (?ds @ rest) = ?ds"
    using d r by (rule takeWhile_prefix)
  have dr: "dropWhile (is_radix_digit 10) (?ds @ rest) = rest"
    using d r by (rule dropWhile_prefix)
  have z: "\<not> (1 < length ?ds \<and> hd ?ds = CHR ''0'')"
    using length_string_of_nat [of "nat (- n)"] hd_string_of_nat [of "nat (- n)"] by blast
  have e: "\<not> (rest \<noteq> [] \<and> (hd rest = CHR ''.'' \<or> hd rest = CHR ''e'' \<or> hd rest = CHR ''E''))"
    using assms(2) by (auto simp: ends_number_def)
  have "parse_number (CHR ''-'' # ?ds @ rest) = Inr (JNumber (- int (nat (- n))), rest)"
    unfolding parse_number_def Let_def
    using t dr z e m string_of_nat_not_Nil [of "nat (- n)"]
    by (simp add: digits_value_string_of_nat)
  with True show ?thesis
    by (simp add: number_to_string_def)
qed

lemma digit_value_hex_char: "d < 16 \<Longrightarrow> digit_value (hex_char d) = Some d"
proof -
  assume "d < 16"
  then have "d = 0 \<or> d = 1 \<or> d = 2 \<or> d = 3 \<or> d = 4 \<or> d = 5 \<or> d = 6 \<or> d = 7 \<or>
      d = 8 \<or> d = 9 \<or> d = 10 \<or> d = 11 \<or> d = 12 \<or> d = 13 \<or> d = 14 \<or> d = 15"
    by arith
  then show ?thesis
    by (auto simp: hex_char_def digit_value_def)
qed

lemma digit_value_zero: "digit_value (CHR ''0'') = Some 0"
  by (simp add: digit_value_def)

lemma hex4_control:
  assumes "n < 32"
  shows "hex4 (CHR ''0'') (CHR ''0'') (hex_char (n div 16)) (hex_char (n mod 16)) = Some n"
proof -
  from assms have "n div 16 < 16" by simp
  moreover have "n mod 16 < 16" by simp
  ultimately show ?thesis
    by (simp add: hex4_def is_radix_digit_def digit_value_hex_char digit_value_zero)
qed

lemma parse_chars_escape:
  assumes "unescape e = Some ch" and "e \<noteq> CHR ''u''"
  shows "parse_chars (backslash # e # t) =
           (case parse_chars t of Inl err \<Rightarrow> Inl err | Inr (s, r) \<Rightarrow> Inr (ch # s, r))"
  using assms by (simp add: dquote_def backslash_def)

lemma parse_chars_unicode:
  assumes "hex4 h1 h2 h3 h4 = Some n" and "n < 256"
  shows "parse_chars (backslash # CHR ''u'' # h1 # h2 # h3 # h4 # t) =
           (case parse_chars t of Inl err \<Rightarrow> Inl err | Inr (s, r) \<Rightarrow> Inr (char_of n # s, r))"
  using assms by (simp add: dquote_def backslash_def)

lemma parse_chars_plain:
  assumes "c \<noteq> dquote" and "c \<noteq> backslash" and "\<not> (of_char c :: nat) < 32"
  shows "parse_chars (c # t) =
           (case parse_chars t of Inl err \<Rightarrow> Inl err | Inr (s, r) \<Rightarrow> Inr (c # s, r))"
  using assms by simp

lemma parse_chars_close: "parse_chars (dquote # rest) = Inr ([], rest)"
  by simp

declare parse_chars.simps [simp del]

lemma parse_chars_quote_char:
  "parse_chars (quote_char c @ t) =
     (case parse_chars t of Inl err \<Rightarrow> Inl err | Inr (s, r) \<Rightarrow> Inr (c # s, r))"
proof -
  consider "c = CHR 0x08" | "c = CHR 0x09" | "c = CHR 0x0A" | "c = CHR 0x0C" | "c = CHR 0x0D"
    | "c = dquote" | "c = backslash"
    | "c \<noteq> CHR 0x08" "c \<noteq> CHR 0x09" "c \<noteq> CHR 0x0A" "c \<noteq> CHR 0x0C" "c \<noteq> CHR 0x0D"
      "c \<noteq> dquote" "c \<noteq> backslash" "(of_char c :: nat) < 32"
    | "c \<noteq> CHR 0x08" "c \<noteq> CHR 0x09" "c \<noteq> CHR 0x0A" "c \<noteq> CHR 0x0C" "c \<noteq> CHR 0x0D"
      "c \<noteq> dquote" "c \<noteq> backslash" "\<not> (of_char c :: nat) < 32"
    by blast
  then show ?thesis
  proof cases
    case 1
    have u: "unescape (CHR ''b'') = Some (CHR 0x08)"
      by (simp add: unescape_def dquote_def backslash_def)
    show ?thesis
      unfolding 1 by (simp add: quote_char_def parse_chars_escape [OF u])
  next
    case 2
    have u: "unescape (CHR ''t'') = Some (CHR 0x09)"
      by (simp add: unescape_def dquote_def backslash_def)
    show ?thesis
      unfolding 2 by (simp add: quote_char_def parse_chars_escape [OF u])
  next
    case 3
    have u: "unescape (CHR ''n'') = Some (CHR 0x0A)"
      by (simp add: unescape_def dquote_def backslash_def)
    show ?thesis
      unfolding 3 by (simp add: quote_char_def parse_chars_escape [OF u])
  next
    case 4
    have u: "unescape (CHR ''f'') = Some (CHR 0x0C)"
      by (simp add: unescape_def dquote_def backslash_def)
    show ?thesis
      unfolding 4 by (simp add: quote_char_def parse_chars_escape [OF u])
  next
    case 5
    have u: "unescape (CHR ''r'') = Some (CHR 0x0D)"
      by (simp add: unescape_def dquote_def backslash_def)
    show ?thesis
      unfolding 5 by (simp add: quote_char_def parse_chars_escape [OF u])
  next
    case 6
    have u: "unescape dquote = Some dquote" "dquote \<noteq> CHR ''u''"
      by (simp_all add: unescape_def dquote_def)
    have "quote_char c = [backslash, dquote]"
      using 6 by (simp add: quote_char_def dquote_def)
    then show ?thesis
      unfolding 6 by (simp add: parse_chars_escape [OF u])
  next
    case 7
    have u: "unescape backslash = Some backslash" "backslash \<noteq> CHR ''u''"
      by (simp_all add: unescape_def dquote_def backslash_def)
    have "quote_char c = [backslash, backslash]"
      using 7 by (simp add: quote_char_def dquote_def backslash_def)
    then show ?thesis
      unfolding 7 by (simp add: parse_chars_escape [OF u])
  next
    case 8
    let ?n = "of_char c :: nat"
    have q: "quote_char c =
        [backslash, CHR ''u'', CHR ''0'', CHR ''0'', hex_char (?n div 16), hex_char (?n mod 16)]"
      using 8 by (simp add: quote_char_def)
    have "?n < 256" using 8(8) by simp
    from parse_chars_unicode [OF hex4_control [OF 8(8)] this, of t] show ?thesis
      unfolding char_of_char by (simp add: q)
  next
    case 9
    then have q: "quote_char c = [c]"
      by (simp add: quote_char_def)
    from parse_chars_plain [OF 9(6,7,8)] show ?thesis
      by (simp add: q)
  qed
qed

lemma parse_chars_quoted:
  "parse_chars (concat (map quote_char s) @ dquote # rest) = Inr (s, rest)"
proof (induction s)
  case Nil
  show ?case by (simp add: parse_chars_close)
next
  case (Cons c s)
  have "parse_chars (quote_char c @ concat (map quote_char s) @ dquote # rest) = Inr (c # s, rest)"
    by (simp only: parse_chars_quote_char Cons.IH sum.case prod.case)
  then show ?case by simp
qed

lemma tl_QuoteJSONString:
  "QuoteJSONString s @ rest = dquote # concat (map quote_char s) @ dquote # rest"
  by (simp add: QuoteJSONString_def)

subsection \<open>Values read back\<close>

lemma delimited_ends_number: "delimited rest \<Longrightarrow> ends_number rest"
  by (auto simp: delimited_def ends_number_def is_decimal_digit_iff newline_def)

lemma starts_value_plain:
  assumes "starts_value c"
  shows "\<not> is_ws c" and "c \<noteq> CHR '']''" and "c \<noteq> CHR ''}''" and "c \<noteq> CHR '',''"
  using assms
  by (auto simp: starts_value_def is_ws_def dquote_def is_decimal_digit_iff)

lemma skip_ws_indent:
  assumes "ws_only ws" and "\<not> is_ws c"
  shows "skip_ws (ws @ c # s) = c # s"
  using assms by (simp add: skip_ws_def ws_only_def dropWhile_append2)

lemma skip_ws_none: "\<not> is_ws c \<Longrightarrow> skip_ws (c # s) = c # s"
  by (simp add: skip_ws_def)

lemma ws_only_gap: "ws_only ind \<Longrightarrow> ws_only (ind @ gap)"
  by (auto simp: ws_only_def gap_def is_ws_def)

lemma number_to_string_starts:
  "\<exists>c cs. number_to_string n = c # cs \<and> (c = CHR ''-'' \<or> is_radix_digit 10 c)"
proof (cases "n < 0")
  case True
  then show ?thesis by (simp add: number_to_string_def)
next
  case False
  obtain c cs where s: "string_of_nat (nat n) = c # cs"
    using string_of_nat_not_Nil [of "nat n"] by (cases "string_of_nat (nat n)") auto
  then have "is_radix_digit 10 c"
    using string_of_nat_digits [of c "nat n"] by simp
  with s False show ?thesis by (simp add: number_to_string_def)
qed

lemma serialize_starts:
  "\<exists>c cs. SerializeJSONProperty ind v = c # cs \<and> starts_value c"
proof (cases v)
  case (JNumber n)
  with number_to_string_starts [of n] show ?thesis
    by (auto simp: starts_value_def)
qed (auto simp: starts_value_def QuoteJSONString_def)

lemma join_Cons2: "xs \<noteq> [] \<Longrightarrow> join sep (x # xs) = x @ sep @ join sep xs"
  by (cases xs) simp_all

lemma join_starts:
  assumes "vs \<noteq> []" and "\<And>v. v \<in> set vs \<Longrightarrow> \<exists>c cs. S v = c # cs \<and> P c"
  shows "\<exists>c cs. join sep (map S vs) = c # cs \<and> P c"
proof -
  from assms(1) obtain v vs' where v: "vs = v # vs'" by (cases vs) auto
  with assms(2) [of v] obtain c cs where "S v = c # cs" "P c" by auto
  with v show ?thesis
    by (cases vs') auto
qed

text \<open>The branches of \<open>parse_value\<close>, \<open>parse_elements\<close> and \<open>parse_members\<close>.\<close>

lemma parse_value_array_empty:
  "skip_ws cs = CHR '']'' # r \<Longrightarrow> parse_value (Suc n) (CHR ''['' # cs) = Inr (JArray [], r)"
  by simp

lemma parse_value_array:
  "skip_ws cs = d # r \<Longrightarrow> d \<noteq> CHR '']'' \<Longrightarrow> parse_elements n (d # r) = Inr (vs, r1) \<Longrightarrow>
     parse_value (Suc n) (CHR ''['' # cs) = Inr (JArray vs, r1)"
  by simp

lemma parse_value_object_empty:
  "skip_ws cs = CHR ''}'' # r \<Longrightarrow> parse_value (Suc n) (CHR ''{'' # cs) = Inr (JObject [], r)"
  by simp

lemma parse_value_object:
  "skip_ws cs = d # r \<Longrightarrow> d \<noteq> CHR ''}'' \<Longrightarrow> parse_members n (d # r) = Inr (ms, r1) \<Longrightarrow>
     make_object ms = Inr obj \<Longrightarrow>
     parse_value (Suc n) (CHR ''{'' # cs) = Inr (obj, r1)"
  by simp

lemma parse_value_string:
  "parse_chars cs = Inr (str, r) \<Longrightarrow> parse_value (Suc n) (dquote # cs) = Inr (JString str, r)"
  by (simp add: dquote_def)

lemma parse_value_number:
  "c = CHR ''-'' \<or> is_radix_digit 10 c \<Longrightarrow> parse_value (Suc n) (c # cs) = parse_number (c # cs)"
  by (auto simp: dquote_def is_decimal_digit_iff)

lemma parse_value_literals:
  "parse_value (Suc n) (''true'' @ r) = Inr (JBool True, r)"
  "parse_value (Suc n) (''false'' @ r) = Inr (JBool False, r)"
  "parse_value (Suc n) (''null'' @ r) = Inr (JNull, r)"
  by (simp_all add: dquote_def is_decimal_digit_iff)

lemma parse_elements_last:
  "parse_value n s = Inr (v, r) \<Longrightarrow> skip_ws r = CHR '']'' # r1 \<Longrightarrow>
     parse_elements (Suc n) s = Inr ([v], r1)"
  by simp

lemma parse_elements_more:
  "parse_value n s = Inr (v, r) \<Longrightarrow> skip_ws r = CHR '','' # r1 \<Longrightarrow>
     parse_elements n (skip_ws r1) = Inr (vs, r2) \<Longrightarrow>
     parse_elements (Suc n) s = Inr (v # vs, r2)"
  by simp

lemma parse_members_last:
  "parse_chars cs = Inr (k, r) \<Longrightarrow> skip_ws r = CHR '':'' # r1 \<Longrightarrow>
     parse_value n (skip_ws r1) = Inr (v, r2) \<Longrightarrow> skip_ws r2 = CHR ''}'' # r3 \<Longrightarrow>
     parse_members (Suc n) (dquote # cs) = Inr ([(k, v)], r3)"
  by simp

lemma parse_members_more:
  "parse_chars cs = Inr (k, r) \<Longrightarrow> skip_ws r = CHR '':'' # r1 \<Longrightarrow>
     parse_value n (skip_ws r1) = Inr (v, r2) \<Longrightarrow> skip_ws r2 = CHR '','' # r3 \<Longrightarrow>
     parse_members n (skip_ws r3) = Inr (ms, r4) \<Longrightarrow>
     parse_members (Suc n) (dquote # cs) = Inr ((k, v) # ms, r4)"
  by simp

declare parse_value.simps [simp del] parse_elements.simps [simp del] parse_members.simps [simp del]

lemma is_ws_newline: "is_ws newline"
  by (simp add: is_ws_def newline_def)

lemma not_ws_punctuation:
  "\<not> is_ws (CHR '']'')" "\<not> is_ws (CHR ''}'')" "\<not> is_ws (CHR '','')" "\<not> is_ws (CHR '':'')"
  by (simp_all add: is_ws_def)

lemma delimited_Cons [simp]: "delimited (CHR '','' # s)" "delimited (newline # s)"
  by (simp_all add: delimited_def)

lemma ws_only_space: "ws_only [CHR '' '']"
  by (simp add: ws_only_def is_ws_def)

lemma parse_elements_join:
  fixes S :: "json \<Rightarrow> string"
  assumes ws: "ws_only ind" "ws_only ind2"
    and st: "\<And>v. \<exists>c cs. S v = c # cs \<and> starts_value c"
    and ne: "vs \<noteq> []"
    and IH: "\<And>v rest fuel. v \<in> set vs \<Longrightarrow> delimited rest \<Longrightarrow> length (S v) \<le> fuel \<Longrightarrow>
               parse_value fuel (S v @ rest) = Inr (v, rest)"
    and len: "length (join (CHR '','' # newline # ind2) (map S vs)) < fuel"
  shows "parse_elements fuel
           (join (CHR '','' # newline # ind2) (map S vs) @ newline # ind @ CHR '']'' # rest) =
         Inr (vs, rest)"
  using ne IH len
proof (induction vs arbitrary: fuel rule: list_nonempty_induct)
  case (single x)
  let ?T = "newline # ind @ CHR '']'' # rest"
  from single.prems(2) obtain n where n: "fuel = Suc n" "length (S x) \<le> n"
    by (cases fuel) auto
  have d: "delimited ?T" by (simp add: delimited_def)
  have v: "parse_value n (S x @ ?T) = Inr (x, ?T)"
    by (rule single.prems(1)) (simp_all add: d n(2))
  have "ws_only (newline # ind)"
    using ws(1) by (simp add: ws_only_def is_ws_newline)
  from skip_ws_indent [OF this not_ws_punctuation(1)]
  have s: "skip_ws ?T = CHR '']'' # rest" by simp
  from parse_elements_last [OF v s] n(1) show ?case by simp
next
  case (cons x xs)
  let ?sep = "CHR '','' # newline # ind2"
  let ?J = "join ?sep (map S xs)"
  let ?T = "newline # ind @ CHR '']'' # rest"
  let ?R = "CHR '','' # newline # ind2 @ ?J @ ?T"
  have j: "join ?sep (map S (x # xs)) = S x @ ?sep @ ?J"
    using cons.hyps(1) by (simp add: join_Cons2)
  obtain c cs where c: "S x = c # cs" using st [of x] by blast
  from cons.prems(2) j c obtain n where n: "fuel = Suc n" "length (S x) \<le> n" "length ?J < n"
    by (cases fuel) auto
  have d: "delimited ?R" by (simp add: delimited_def)
  have v: "parse_value n (S x @ ?R) = Inr (x, ?R)"
    by (rule cons.prems(1)) (simp_all add: d n(2))
  have s1: "skip_ws ?R = CHR '','' # newline # ind2 @ ?J @ ?T"
    by (rule skip_ws_none) (rule not_ws_punctuation(3))
  obtain e es where e: "?J = e # es" "starts_value e"
    using join_starts [OF cons.hyps(1), of S starts_value ?sep] st by blast
  have w: "ws_only (newline # ind2)"
    using ws(2) by (simp add: ws_only_def is_ws_newline)
  have "skip_ws ((newline # ind2) @ e # es @ ?T) = e # es @ ?T"
    using w starts_value_plain(1) [OF e(2)] by (rule skip_ws_indent)
  then have s2: "skip_ws (newline # ind2 @ ?J @ ?T) = ?J @ ?T"
    by (simp add: e(1))
  have rec: "parse_elements n (?J @ ?T) = Inr (xs, rest)"
    by (rule cons.IH) (simp_all add: cons.prems(1) n(3))
  from parse_elements_more [OF v s1] rec s2 have "parse_elements (Suc n) (S x @ ?R) = Inr (x # xs, rest)"
    by simp
  then show ?case unfolding j n(1) by simp
qed

lemma parse_members_join:
  fixes S :: "json \<Rightarrow> string"
  assumes ws: "ws_only ind" "ws_only ind2"
    and st: "\<And>v. \<exists>c cs. S v = c # cs \<and> starts_value c"
    and ne: "ms \<noteq> []"
    and IH: "\<And>m rest fuel. m \<in> set ms \<Longrightarrow> delimited rest \<Longrightarrow> length (S (snd m)) \<le> fuel \<Longrightarrow>
               parse_value fuel (S (snd m) @ rest) = Inr (snd m, rest)"
    and len: "length (join (CHR '','' # newline # ind2)
                (map (\<lambda>m. QuoteJSONString (fst m) @ CHR '':'' # CHR '' '' # S (snd m)) ms)) < fuel"
  shows "parse_members fuel
           (join (CHR '','' # newline # ind2)
              (map (\<lambda>m. QuoteJSONString (fst m) @ CHR '':'' # CHR '' '' # S (snd m)) ms) @
            newline # ind @ CHR ''}'' # rest) =
         Inr (ms, rest)"
  using ne IH len
proof (induction ms arbitrary: fuel rule: list_nonempty_induct)
  case (single m)
  let ?T = "newline # ind @ CHR ''}'' # rest"
  let ?q = "concat (map quote_char (fst m))"
  obtain c cs where c: "S (snd m) = c # cs" "starts_value c" using st [of "snd m"] by blast
  from single.prems(2) obtain n where n: "fuel = Suc n" "length (S (snd m)) \<le> n"
    by (cases fuel) (auto simp: QuoteJSONString_def)
  have k: "parse_chars (?q @ dquote # CHR '':'' # CHR '' '' # S (snd m) @ ?T) =
      Inr (fst m, CHR '':'' # CHR '' '' # S (snd m) @ ?T)"
    by (rule parse_chars_quoted)
  have s1: "skip_ws (CHR '':'' # CHR '' '' # S (snd m) @ ?T) = CHR '':'' # CHR '' '' # S (snd m) @ ?T"
    by (rule skip_ws_none) (rule not_ws_punctuation(4))
  have "skip_ws ([CHR '' ''] @ c # cs @ ?T) = c # cs @ ?T"
    by (rule skip_ws_indent [OF ws_only_space starts_value_plain(1) [OF c(2)]])
  then have s2: "skip_ws (CHR '' '' # S (snd m) @ ?T) = S (snd m) @ ?T"
    by (simp add: c(1))
  have d: "delimited ?T" by (simp add: delimited_def)
  have v: "parse_value n (S (snd m) @ ?T) = Inr (snd m, ?T)"
    by (rule single.prems(1)) (simp_all add: d n(2))
  have "ws_only (newline # ind)"
    using ws(1) by (simp add: ws_only_def is_ws_newline)
  from skip_ws_indent [OF this not_ws_punctuation(2)]
  have s3: "skip_ws ?T = CHR ''}'' # rest" by simp
  from v s2 have v': "parse_value n (skip_ws (CHR '' '' # S (snd m) @ ?T)) = Inr (snd m, ?T)"
    by simp
  from parse_members_last [OF k s1 v' s3]
  show ?case by (simp add: n(1) QuoteJSONString_def)
next
  case (cons m ms)
  let ?sep = "CHR '','' # newline # ind2"
  let ?M = "\<lambda>m. QuoteJSONString (fst m) @ CHR '':'' # CHR '' '' # S (snd m)"
  let ?J = "join ?sep (map ?M ms)"
  let ?T = "newline # ind @ CHR ''}'' # rest"
  let ?R = "CHR '','' # newline # ind2 @ ?J @ ?T"
  let ?q = "concat (map quote_char (fst m))"
  have j: "join ?sep (map ?M (m # ms)) = ?M m @ ?sep @ ?J"
    using cons.hyps(1) by (simp add: join_Cons2)
  obtain c cs where c: "S (snd m) = c # cs" "starts_value c" using st [of "snd m"] by blast
  from cons.prems(2) j obtain n where n: "fuel = Suc n" "length (S (snd m)) \<le> n" "length ?J < n"
    by (cases fuel) (auto simp: QuoteJSONString_def)
  have k: "parse_chars (?q @ dquote # CHR '':'' # CHR '' '' # S (snd m) @ ?R) =
      Inr (fst m, CHR '':'' # CHR '' '' # S (snd m) @ ?R)"
    by (rule parse_chars_quoted)
  have s1: "skip_ws (CHR '':'' # CHR '' '' # S (snd m) @ ?R) = CHR '':'' # CHR '' '' # S (snd m) @ ?R"
    by (rule skip_ws_none) (rule not_ws_punctuation(4))
  have "skip_ws ([CHR '' ''] @ c # cs @ ?R) = c # cs @ ?R"
    by (rule skip_ws_indent [OF ws_only_space starts_value_plain(1) [OF c(2)]])
  then have s2: "skip_ws (CHR '' '' # S (snd m) @ ?R) = S (snd m) @ ?R"
    by (simp add: c(1))
  have d: "delimited ?R" by (simp add: delimited_def)
  have v: "parse_value n (S (snd m) @ ?R) = Inr (snd m, ?R)"
    by (rule cons.prems(1)) (simp_all add: d n(2))
  from v s2 have v': "parse_value n (skip_ws (CHR '' '' # S (snd m) @ ?R)) = Inr (snd m, ?R)"
    by simp
  have s3: "skip_ws ?R = CHR '','' # newline # ind2 @ ?J @ ?T"
    by (rule skip_ws_none) (rule not_ws_punctuation(3))
  have "\<exists>e es. ?J = e # es \<and> e = dquote"
    by (rule join_starts [OF cons.hyps(1)]) (simp add: QuoteJSONString_def)
  then obtain es where e: "?J = dquote # es" by blast
  have w: "ws_only (newline # ind2)"
    using ws(2) by (simp add: ws_only_def is_ws_newline)
  have "skip_ws ((newline # ind2) @ dquote # es @ ?T) = dquote # es @ ?T"
    using w by (rule skip_ws_indent) (simp add: is_ws_def dquote_def)
  then have s4: "skip_ws (newline # ind2 @ ?J @ ?T) = ?J @ ?T"
    unfolding e by simp
  have rec: "parse_members n (?J @ ?T) = Inr (ms, rest)"
    by (rule cons.IH) (simp_all add: cons.prems(1) n(3))
  from rec s4 have rec': "parse_members n (skip_ws (newline # ind2 @ ?J @ ?T)) = Inr (ms, rest)"
    by simp
  from parse_members_more [OF k s1 v' s3 rec']
  show ?case unfolding j n(1) by (simp add: QuoteJSONString_def)
qed

lemma set_property_new:
  "k \<notin> fst ` set obj \<Longrightarrow> set_property k v obj = obj @ [(k, v)]"
  by (induction obj) auto

lemma foldl_set_property:
  "distinct (map fst (obj @ ms)) \<Longrightarrow>
     foldl (\<lambda>obj m. set_property (fst m) (snd m) obj) obj ms = obj @ ms"
proof (induction ms arbitrary: obj)
  case Nil
  show ?case by simp
next
  case (Cons m ms)
  from Cons.prems have "fst m \<notin> fst ` set obj" by auto
  then have "set_property (fst m) (snd m) obj = obj @ [m]"
    by (simp add: set_property_new)
  moreover from Cons.prems have "distinct (map fst ((obj @ [m]) @ ms))" by simp
  ultimately show ?case
    using Cons.IH [of "obj @ [m]"] by simp
qed

lemma make_object_distinct:
  assumes "distinct (map fst ms)" and "\<forall>m\<in>set ms. \<not> index_key (fst m)"
  shows "make_object ms = Inr (JObject ms)"
proof -
  from assms(2) have "\<not> list_ex (\<lambda>m. index_key (fst m)) ms"
    by (simp add: list_ex_iff)
  moreover from assms(1) have "foldl (\<lambda>obj m. set_property (fst m) (snd m) obj) [] ms = ms"
    using foldl_set_property [of "[]" ms] by simp
  ultimately show ?thesis
    by (simp add: make_object_def)
qed

lemma parse_value_serialize:
  "wf_json v \<Longrightarrow> ws_only ind \<Longrightarrow> delimited rest \<Longrightarrow>
     length (SerializeJSONProperty ind v) \<le> fuel \<Longrightarrow>
     parse_value fuel (SerializeJSONProperty ind v @ rest) = Inr (v, rest)"
proof (induction v arbitrary: ind rest fuel)
  case JNull
  then obtain n where "fuel = Suc n" by (cases fuel) auto
  then show ?case using parse_value_literals(3) [of n rest] by simp
next
  case (JBool b)
  then obtain n where "fuel = Suc n" by (cases fuel) (auto split: if_splits)
  then show ?case
    using parse_value_literals(1) [of n rest] parse_value_literals(2) [of n rest] by simp
next
  case (JNumber i)
  obtain c cs where c: "number_to_string i = c # cs" "c = CHR ''-'' \<or> is_radix_digit 10 c"
    using number_to_string_starts [of i] by blast
  from JNumber.prems(4) c(1) obtain n where n: "fuel = Suc n" by (cases fuel) auto
  have "parse_value (Suc n) (c # cs @ rest) = parse_number (c # cs @ rest)"
    using c(2) by (rule parse_value_number)
  also have "c # cs @ rest = number_to_string i @ rest"
    by (simp add: c(1))
  also have "parse_number (number_to_string i @ rest) = Inr (JNumber i, rest)"
    using JNumber.prems(1,3) by (simp add: parse_number_number_to_string delimited_ends_number)
  finally show ?case by (simp add: n c(1))
next
  case (JString s)
  from JString.prems(4) obtain n where n: "fuel = Suc n"
    by (cases fuel) (auto simp: QuoteJSONString_def)
  have "parse_value (Suc n) (dquote # concat (map quote_char s) @ dquote # rest) =
      Inr (JString s, rest)"
    by (rule parse_value_string) (rule parse_chars_quoted)
  then show ?case by (simp add: n QuoteJSONString_def)
next
  case (JArray vs)
  show ?case
  proof (cases "vs = []")
    case True
    from JArray.prems(4) True obtain n where n: "fuel = Suc n" by (cases fuel) auto
    have "skip_ws (CHR '']'' # rest) = CHR '']'' # rest"
      by (rule skip_ws_none) (rule not_ws_punctuation(1))
    from parse_value_array_empty [OF this] True n show ?thesis by simp
  next
    case False
    let ?ind2 = "ind @ gap"
    let ?S = "SerializeJSONProperty ?ind2"
    let ?J = "join (CHR '','' # newline # ?ind2) (map ?S vs)"
    let ?T = "newline # ind @ CHR '']'' # rest"
    have shape: "SerializeJSONProperty ind (JArray vs) @ rest =
        CHR ''['' # newline # ?ind2 @ ?J @ ?T"
      using False by simp
    from JArray.prems(4) False obtain n where n: "fuel = Suc n" "length ?J < n"
      by (cases fuel) auto
    have w2: "ws_only ?ind2" using JArray.prems(2) by (rule ws_only_gap)
    have elems: "parse_elements n (?J @ ?T) = Inr (vs, rest)"
    proof (rule parse_elements_join [OF JArray.prems(2) w2 serialize_starts False _ n(2)])
      fix v r f
      assume "v \<in> set vs" "delimited r" "length (?S v) \<le> f"
      with JArray.IH [of v ?ind2 r f] JArray.prems(1) w2
      show "parse_value f (?S v @ r) = Inr (v, r)" by simp
    qed
    obtain e es where e: "?J = e # es" "starts_value e"
      using join_starts [OF False, of ?S starts_value] serialize_starts by blast
    have "ws_only (newline # ?ind2)"
      using w2 by (simp add: ws_only_def is_ws_newline)
    from skip_ws_indent [OF this starts_value_plain(1) [OF e(2)], of "es @ ?T"]
    have s: "skip_ws (newline # ?ind2 @ ?J @ ?T) = e # es @ ?T"
      unfolding e(1) by simp
    from elems have "parse_elements n (e # es @ ?T) = Inr (vs, rest)"
      unfolding e(1) by simp
    from parse_value_array [OF s starts_value_plain(2) [OF e(2)] this]
    show ?thesis unfolding shape n(1) .
  qed
next
  case (JObject ms)
  show ?case
  proof (cases "ms = []")
    case True
    from JObject.prems(4) True obtain n where n: "fuel = Suc n" by (cases fuel) auto
    have "skip_ws (CHR ''}'' # rest) = CHR ''}'' # rest"
      by (rule skip_ws_none) (rule not_ws_punctuation(2))
    from parse_value_object_empty [OF this] True n show ?thesis by simp
  next
    case False
    let ?ind2 = "ind @ gap"
    let ?S = "SerializeJSONProperty ?ind2"
    let ?M = "\<lambda>m. QuoteJSONString (fst m) @ CHR '':'' # CHR '' '' # ?S (snd m)"
    let ?J = "join (CHR '','' # newline # ?ind2) (map ?M ms)"
    let ?T = "newline # ind @ CHR ''}'' # rest"
    have shape: "SerializeJSONProperty ind (JObject ms) @ rest =
        CHR ''{'' # newline # ?ind2 @ ?J @ ?T"
      using False by simp
    from JObject.prems(4) False obtain n where n: "fuel = Suc n" "length ?J < n"
      by (cases fuel) auto
    have w2: "ws_only ?ind2" using JObject.prems(2) by (rule ws_only_gap)
    have mems: "parse_members n (?J @ ?T) = Inr (ms, rest)"
    proof (rule parse_members_join [OF JObject.prems(2) w2 serialize_starts False _ n(2)])
      fix m r f
      assume m: "m \<in> set ms" and "delimited r" "length (?S (snd m)) \<le> f"
      moreover have "snd m \<in> Basic_BNFs.snds m"
        by (cases m) simp
      moreover from m JObject.prems(1) have "wf_json (snd m)" by simp
      ultimately show "parse_value f (?S (snd m) @ r) = Inr (snd m, r)"
        using JObject.IH [of m "snd m" ?ind2 r f] w2 by simp
    qed
    have "\<exists>e es. ?J = e # es \<and> e = dquote"
      by (rule join_starts [OF False]) (simp add: QuoteJSONString_def)
    then obtain es where e: "?J = dquote # es" by blast
    have nq: "\<not> is_ws dquote" "dquote \<noteq> CHR ''}''"
      by (simp_all add: is_ws_def dquote_def)
    have "ws_only (newline # ?ind2)"
      using w2 by (simp add: ws_only_def is_ws_newline)
    from skip_ws_indent [OF this nq(1), of "es @ ?T"]
    have s: "skip_ws (newline # ?ind2 @ ?J @ ?T) = dquote # es @ ?T"
      unfolding e by simp
    from mems have m': "parse_members n (dquote # es @ ?T) = Inr (ms, rest)"
      unfolding e by simp
    have obj: "make_object ms = Inr (JObject ms)"
      using JObject.prems(1) by (intro make_object_distinct) simp_all
    from parse_value_object [OF s nq(2) m' obj]
    show ?thesis unfolding shape n(1) .
  qed
qed

lemma skip_ws_Nil [simp]: "skip_ws [] = []"
  by (simp add: skip_ws_def)

lemma not_ws_starts_value: "starts_value c \<Longrightarrow> skip_ws (c # s) = c # s"
  by (rule skip_ws_none) (rule starts_value_plain(1))

text \<open>
  \<^verbatim>\<open>JSON.parse(JSON.stringify(v))\<close> is \<open>v\<close>: the parser does not run out of
  steps on the text the printer writes.
\<close>

lemma JSON_parse_stringify: "wf_json v \<Longrightarrow> JSON_parse (JSON_stringify v) = Inr v"
proof -
  assume wf: "wf_json v"
  let ?text = "SerializeJSONProperty [] v"
  obtain c cs where c: "?text = c # cs" "starts_value c"
    using serialize_starts [of "[]" v] by blast
  then have s: "skip_ws ?text = ?text"
    by (simp add: not_ws_starts_value)
  have "parse_value (Suc (2 * length ?text)) (?text @ []) = Inr (v, [])"
    using wf by (rule parse_value_serialize) (simp_all add: ws_only_def delimited_def)
  then show ?thesis
    by (simp add: JSON_parse_def JSON_stringify_def s)
qed

subsection \<open>The document read back\<close>

lemma index_key_names:
  "\<not> index_key ''id''" "\<not> index_key ''title''" "\<not> index_key ''description''"
  "\<not> index_key ''date''" "\<not> index_key ''isFavorite''" "\<not> index_key ''filename''"
  "\<not> index_key ''url''" "\<not> index_key ''images''" "\<not> index_key ''stats''"
  "\<not> index_key ''totalVisits''" "\<not> index_key ''totalImages''"
  "\<not> index_key ''totalFavorites''"
  by (simp_all add: index_key_def is_decimal_digit_iff)

lemma wf_image_json: "\<bar>img_id img\<bar> < 2 ^ 53 \<Longrightarrow> wf_json (image_json img)"
  by (simp add: image_json_def index_key_names)

lemma wf_stats_json:
  "\<bar>totalVisits st\<bar> < 2 ^ 53 \<Longrightarrow> \<bar>totalImages st\<bar> < 2 ^ 53 \<Longrightarrow>
     \<bar>totalFavorites st\<bar> < 2 ^ 53 \<Longrightarrow> wf_json (stats_json st)"
  by (simp add: stats_json_def index_key_names)

lemma wf_catalog_json: "safe_catalog d \<Longrightarrow> wf_json (catalog_json d)"
  by (simp add: catalog_json_def safe_catalog_def index_key_names wf_image_json wf_stats_json)

lemma image_of_json_image_json: "image_of_json (image_json img) = Some img"
  by (simp add: image_of_json_def image_json_def)

lemma stats_of_json_stats_json: "stats_of_json (stats_json st) = Some st"
  by (simp add: stats_of_json_def stats_json_def)

lemma those_images: "those (map (image_of_json \<circ> image_json) imgs) = Some imgs"
  by (induction imgs) (simp_all add: image_of_json_image_json)

lemma catalog_of_json_catalog_json: "catalog_of_json (catalog_json d) = Some d"
  by (simp add: catalog_of_json_def catalog_json_def those_images stats_of_json_stats_json)

text \<open>
  C8. For every catalog whose numbers are safe integers, the text \<^verbatim>\<open>saveData\<close> writes
  is read back at the next start as exactly that catalog: the same entries in the same
  order with the same fields, and the same statistics.
\<close>

theorem load_after_save:
  assumes "safe_catalog (storyboardData s)"
  shows "load fs (data_json (saveData s)) =
           Some \<lparr>storyboardData = storyboardData s, files = fs,
                 data_json = data_json (saveData s)\<rparr>"
proof -
  let ?d = "storyboardData s"
  have "JSON_parse (JSON_stringify (catalog_json ?d)) = Inr (catalog_json ?d)"
    using assms by (intro JSON_parse_stringify wf_catalog_json)
  then show ?thesis
    by (simp add: load_def saveData_def catalog_of_json_catalog_json)
qed

theorem load_after_save_witness:
  "safe_catalog (storyboardData two_images) \<and>
   load {} (data_json (saveData two_images)) =
     Some \<lparr>storyboardData =
             \<lparr>images = [cat_image, dog_image],
              stats = \<lparr>totalVisits = 3, totalImages = 2, totalFavorites = 1\<rparr>\<rparr>,
           files = {}, data_json = data_json (saveData two_images)\<rparr>"
proof -
  have h: "safe_catalog (storyboardData two_images)"
    by (simp add: safe_catalog_def two_images_def cat_image_def dog_image_def)
  from load_after_save [OF h, of "{}"] h show ?thesis
    by (simp add: two_images_def)
qed

subsection \<open>A counter that had drifted\<close>

text \<open>
  C4 as stated fails in a state whose counter disagrees with the collection. The server
  that starts on the hand-edited document holds one image that is no favorite and a
  \<^verbatim>\<open>totalFavorites\<close> of 7; two toggles of that image leave the image as it was and
  \<^verbatim>\<open>totalFavorites\<close> at 0, not at 7.
\<close>

theorem drifted_counter_is_not_restored:
  "load {''uploads/1700000000000-123456789.png''} (data_json drifted_server) =
     Some drifted_server \<and>
   images (storyboardData drifted_server) = [cat_image] \<and>
   totalFavorites (stats (storyboardData drifted_server)) = 7 \<and>
   fst (toggleFavorite (Number 1700000000005) drifted_server) =
     Response 200 (FavoriteBody True) \<and>
   images (storyboardData (snd (toggleFavorite (Number 1700000000005)
     (snd (toggleFavorite (Number 1700000000005) drifted_server))))) = [cat_image] \<and>
   totalFavorites (stats (storyboardData (snd (toggleFavorite (Number 1700000000005)
     (snd (toggleFavorite (Number 1700000000005) drifted_server)))))) = 0"
proof -
  let ?n = "Number 1700000000005"
  have "safe_catalog drifted_catalog"
    by (simp add: safe_catalog_def drifted_catalog_def cat_image_def)
  then have "JSON_parse (JSON_stringify (catalog_json drifted_catalog)) =
      Inr (catalog_json drifted_catalog)"
    by (intro JSON_parse_stringify wf_catalog_json)
  then have l: "load {''uploads/1700000000000-123456789.png''} (data_json drifted_server) =
      Some drifted_server"
    by (simp add: load_def drifted_server_def catalog_of_json_catalog_json)
  have f: "findIndex (id_is ?n) (images (storyboardData drifted_server)) = Some 0"
    by (simp add: drifted_server_def drifted_catalog_def id_is_def cat_image_def)
  have i1: "images (storyboardData (snd (toggleFavorite ?n drifted_server))) =
      [cat_image\<lparr>isFavorite := True\<rparr>]"
    unfolding toggleFavorite_found(2) [OF f]
    by (simp add: drifted_server_def drifted_catalog_def cat_image_def)
  have r1: "fst (toggleFavorite ?n drifted_server) = Response 200 (FavoriteBody True)"
    unfolding toggleFavorite_found(1) [OF f]
    by (simp add: drifted_server_def drifted_catalog_def cat_image_def)
  have f1: "findIndex (id_is ?n) (images (storyboardData (snd (toggleFavorite ?n drifted_server)))) =
      Some 0"
    unfolding i1 by (simp add: id_is_def cat_image_def)
  have i2: "images (storyboardData (snd (toggleFavorite ?n (snd (toggleFavorite ?n drifted_server))))) =
      [cat_image]"
    unfolding toggleFavorite_found(2) [OF f1] i1 by (simp add: cat_image_def)
  have t2: "totalFavorites (stats (storyboardData
      (snd (toggleFavorite ?n (snd (toggleFavorite ?n drifted_server)))))) = 0"
    unfolding toggleFavorite_found(3) [OF f1] i2 by (simp add: cat_image_def)
  have "images (storyboardData drifted_server) = [cat_image]"
    and "totalFavorites (stats (storyboardData drifted_server)) = 7"
    by (simp_all add: drifted_server_def drifted_catalog_def)
  with l r1 i2 t2 show ?thesis by simp
qed

end
